theory Spec2Isabelle
  imports Main
begin

section \<open>Data model of \<open>scrapy/contrib/spiders/crawl.py\<close>\<close>

text \<open>
  A rule's \<open>callback\<close> and \<open>process_links\<close> hold any Python value, and so does an
  attribute of the spider. The code tells four kinds apart: \<open>None\<close>; a callable object;
  a string, which compilation takes as the name of an attribute of the spider; any other
  object. Callable objects are opaque values of a type \<open>'f\<close>, and what calling one does
  is given by the environment below. \<open>Callable f\<close> is a callable object that is true, as
  every function and bound method is; \<open>FalseCallable f\<close> is a callable object that is
  false (an instance with \<open>__call__\<close> whose \<open>__len__\<close> is 0 or whose \<open>__nonzero__\<close>
  returns \<open>False\<close>). \<open>Other b\<close> is an object that is neither \<open>None\<close>, nor callable, nor
  a string, of truth value \<open>b\<close>: the empty list is \<open>Other False\<close>.
\<close>

datatype 'f method_ref = PyNone | Callable 'f | FalseCallable 'f | Name string | Other bool

text \<open>
  Python truth value, as tested by \<open>if callback\<close>, \<open>False if callback else True\<close> and
  \<open>links and rule.process_links\<close>: \<open>None\<close> and the empty string are false, and an object
  has the truth value its class gives it.
\<close>

fun truthy :: "'f method_ref \<Rightarrow> bool" where
  "truthy PyNone = False"
| "truthy (Callable f) = True"
| "truthy (FalseCallable f) = False"
| "truthy (Name s) = (s \<noteq> [])"
| "truthy (Other b) = b"

text \<open>
  The class \<open>Rule\<close>. The field \<open>cb_kwargs\<close> has the type \<open>'k\<close>: a dictionary
  \<open>string \<rightharpoonup> 'v\<close> where rules are values, the address of a dictionary object where the
  aliasing of objects matters.
\<close>

record ('e, 'f, 'k) rule =
  link_extractor :: 'e
  callback :: "'f method_ref"
  cb_kwargs :: 'k
  follow :: bool
  process_links :: "'f method_ref"

text \<open>
  \<open>Rule.__init__(link_extractor, callback=None, cb_kwargs=None, follow=None,
  process_links=None)\<close>. An omitted \<open>cb_kwargs\<close> or \<open>follow\<close> is \<open>None\<close>;
  \<open>cb_kwargs or {}\<close> is the empty dictionary for \<open>None\<close> and for an empty dictionary.
\<close>

definition Rule_init ::
  "'e \<Rightarrow> 'f method_ref \<Rightarrow> (string \<rightharpoonup> 'v) option \<Rightarrow> bool option \<Rightarrow> 'f method_ref
    \<Rightarrow> ('e, 'f, string \<rightharpoonup> 'v) rule" where
  "Rule_init le cb kw fo pl =
     \<lparr> link_extractor = le,
       callback = cb,
       cb_kwargs = (case kw of None \<Rightarrow> Map.empty | Some m \<Rightarrow> m),
       follow = (case fo of None \<Rightarrow> (if truthy cb then False else True) | Some b \<Rightarrow> b),
       process_links = pl \<rparr>"

section \<open>Rule compilation\<close>

text \<open>
  \<open>get_method\<close>, local to \<open>_compile_rules\<close>. The spider instance is the table \<open>attrs\<close> of
  its attributes by name; \<open>getattr(self, method, None)\<close> is a lookup in it and returns
  the attribute found, whatever it is, or \<open>None\<close> when there is none. A value that is
  neither callable nor a string falls through and yields \<open>None\<close>.
\<close>

fun get_method :: "(string \<rightharpoonup> 'f method_ref) \<Rightarrow> 'f method_ref \<Rightarrow> 'f method_ref" where
  "get_method attrs (Callable f) = Callable f"
| "get_method attrs (FalseCallable f) = FalseCallable f"
| "get_method attrs (Name s) = (case attrs s of None \<Rightarrow> PyNone | Some v \<Rightarrow> v)"
| "get_method attrs PyNone = PyNone"
| "get_method attrs (Other b) = PyNone"

text \<open>The body of the loop \<open>for rule in self._rules\<close> of \<open>_compile_rules\<close>.\<close>

definition compile_rule :: "(string \<rightharpoonup> 'f method_ref) \<Rightarrow> ('e, 'f, 'k) rule \<Rightarrow> ('e, 'f, 'k) rule" where
  "compile_rule attrs r =
     r\<lparr> callback := get_method attrs (callback r),
        process_links := get_method attrs (process_links r) \<rparr>"

text \<open>
  \<open>_compile_rules\<close> on rule values: \<open>copy.copy\<close> of a value is the value, and the result
  is the list stored in \<open>self._rules\<close>.
\<close>

definition compile_rules ::
  "(string \<rightharpoonup> 'f method_ref) \<Rightarrow> ('e, 'f, 'k) rule list \<Rightarrow> ('e, 'f, 'k) rule list" where
  "compile_rules attrs rules = map (compile_rule attrs) rules"

section \<open>Links, requests, results and the collaborators\<close>

text \<open>
  Modelled from the spec: the classes \<open>Link\<close>, \<open>Response\<close> and \<open>Request\<close> are imported
  by \<open>crawl.py\<close> and are not part of it. A link is a URL with its anchor text, and two
  links are the same member of the set \<open>seen\<close> when both agree. A response exposes its
  URL and a body. A request carries the URL and the text of its link and the
  continuation attached by \<open>append_callback\<close>: the callback, its keyword arguments and
  the follow flag handed to \<open>_response_downloaded\<close> when the response arrives.
\<close>

record link =
  url :: string
  "text" :: string

record response =
  resp_url :: string
  resp_body :: string

record ('f, 'v) request =
  r_url :: string
  r_link_text :: string
  r_callback :: "'f method_ref"
  r_cb_kwargs :: "string \<rightharpoonup> 'v"
  r_follow :: bool

text \<open>A result returned to the framework: a request or an item (an opaque value).\<close>

datatype ('f, 'v, 'i) result = Req "('f, 'v) request" | Item 'i

text \<open>
  An exception leaving a call: \<open>TypeError\<close> when the value called is not callable, and
  whatever a link extractor, a callback or a hook raises itself.
\<close>

datatype exn = TypeError | Raised string

text \<open>
  The collaborators of the spider, none of them defined in \<open>crawl.py\<close>: the two methods
  of a link extractor, what calling a \<open>process_links\<close> callable and a callback does (a
  callback returns \<open>None\<close> or a sequence of results), the spider's overridable
  \<open>process_results\<close> method, and the settings.
\<close>

record ('e, 'f, 'v, 'i) env =
  matches :: "'e \<Rightarrow> string \<Rightarrow> exn + bool"
  extract_urls :: "'e \<Rightarrow> response \<Rightarrow> exn + link list"
  call_process_links :: "'f \<Rightarrow> link list \<Rightarrow> exn + link list"
  call_callback :: "'f \<Rightarrow> response \<Rightarrow> (string \<rightharpoonup> 'v) \<Rightarrow> exn + ('f, 'v, 'i) result list option"
  process_results_hook :: "('f, 'v, 'i) result list \<Rightarrow> response \<Rightarrow> exn + ('f, 'v, 'i) result list"
  settings :: "string \<rightharpoonup> bool"

text \<open>
  Modelled from the spec: \<open>settings.getbool(name, default)\<close> of \<open>scrapy.conf\<close>, which is
  not part of \<open>crawl.py\<close>: the boolean configuration option of that name, or the default
  when the option is not set.
\<close>

definition getbool :: "(string \<rightharpoonup> bool) \<Rightarrow> string \<Rightarrow> bool \<Rightarrow> bool" where
  "getbool s name dflt = (case s name of None \<Rightarrow> dflt | Some b \<Rightarrow> b)"

text \<open>\<open>CrawlSpider.process_results\<close>, the default of the hook: \<open>return results\<close>.\<close>

definition process_results ::
  "('f, 'v, 'i) result list \<Rightarrow> response \<Rightarrow> exn + ('f, 'v, 'i) result list" where
  "process_results results resp = Inr results"

text \<open>
  Calling the value held in \<open>process_links\<close> or \<open>callback\<close>: a value that is not
  callable raises \<open>TypeError\<close>.
\<close>

fun apply_process_links ::
  "('e, 'f, 'v, 'i) env \<Rightarrow> 'f method_ref \<Rightarrow> link list \<Rightarrow> exn + link list" where
  "apply_process_links env (Callable f) links = call_process_links env f links"
| "apply_process_links env (FalseCallable f) links = call_process_links env f links"
| "apply_process_links env (Name s) links = Inl TypeError"
| "apply_process_links env PyNone links = Inl TypeError"
| "apply_process_links env (Other b) links = Inl TypeError"

fun apply_callback ::
  "('e, 'f, 'v, 'i) env \<Rightarrow> 'f method_ref \<Rightarrow> response \<Rightarrow> (string \<rightharpoonup> 'v)
    \<Rightarrow> exn + ('f, 'v, 'i) result list option" where
  "apply_callback env (Callable f) resp kw = call_callback env f resp kw"
| "apply_callback env (FalseCallable f) resp kw = call_callback env f resp kw"
| "apply_callback env (Name s) resp kw = Inl TypeError"
| "apply_callback env PyNone resp kw = Inl TypeError"
| "apply_callback env (Other b) resp kw = Inl TypeError"

section \<open>The link collector: \<open>_requests_to_follow\<close>\<close>

text \<open>
  The request built for one link of one rule: \<open>Request(url=link.url,
  link_text=link.text)\<close> followed by \<open>append_callback(self._response_downloaded,
  rule.callback, cb_kwargs=rule.cb_kwargs, follow=rule.follow)\<close>.
\<close>

definition make_request :: "('e, 'f, string \<rightharpoonup> 'v) rule \<Rightarrow> link \<Rightarrow> ('f, 'v) request" where
  "make_request rule l =
     \<lparr> r_url = url l, r_link_text = text l, r_callback = callback rule,
       r_cb_kwargs = cb_kwargs rule, r_follow = follow rule \<rparr>"

text \<open>
  The loop \<open>for rule in self._rules\<close>, on the local variables \<open>requests\<close> and \<open>seen\<close>.
  It returns both at the end of the loop, or the first exception raised.
\<close>

fun requests_to_follow_loop ::
  "('e, 'f, 'v, 'i) env \<Rightarrow> response \<Rightarrow> ('f, 'v) request list \<Rightarrow> link set
    \<Rightarrow> ('e, 'f, string \<rightharpoonup> 'v) rule list \<Rightarrow> exn + (('f, 'v) request list \<times> link set)" where
  "requests_to_follow_loop env resp requests seen [] = Inr (requests, seen)"
| "requests_to_follow_loop env resp requests seen (rule # rules) =
     (case extract_urls env (link_extractor rule) resp of
        Inl e \<Rightarrow> Inl e
      | Inr extracted \<Rightarrow>
          (case (let links = filter (\<lambda>l. l \<notin> seen) extracted
                 in if links \<noteq> [] \<and> truthy (process_links rule)
                    then apply_process_links env (process_links rule) links
                    else Inr links) of
             Inl e \<Rightarrow> Inl e
           | Inr links \<Rightarrow>
               requests_to_follow_loop env resp
                 (requests @ map (make_request rule) links) (seen \<union> set links) rules))"

text \<open>
  \<open>_requests_to_follow(self, response)\<close>, with \<open>self._rules\<close> as the argument \<open>rules\<close>:
  \<open>requests = []\<close>, \<open>seen = set()\<close>, the loop, \<open>return requests\<close>.
\<close>

definition requests_to_follow ::
  "('e, 'f, 'v, 'i) env \<Rightarrow> ('e, 'f, string \<rightharpoonup> 'v) rule list \<Rightarrow> response
    \<Rightarrow> exn + ('f, 'v) request list" where
  "requests_to_follow env rules resp =
     (case requests_to_follow_loop env resp [] {} rules of
        Inl e \<Rightarrow> Inl e
      | Inr (requests, seen) \<Rightarrow> Inr requests)"

section \<open>The link collector as a method of the spider object\<close>

text \<open>
  The spider instance that the methods receive as \<open>self\<close>: its attribute \<open>_rules\<close> and,
  in \<open>other_attrs\<close>, whatever else the instance holds. A method call can assign to any of
  them, and what it assigns is still there at the next call. The local variables of one
  call of \<open>_requests_to_follow\<close> are its frame, made when the call starts and gone when
  it returns.
\<close>

record ('e, 'f, 'v, 'x) spider =
  priv_rules :: "('e, 'f, string \<rightharpoonup> 'v) rule list"
  other_attrs :: 'x

record ('f, 'v) frame =
  fr_requests :: "('f, 'v) request list"
  fr_seen :: "link set"

text \<open>
  The loop of \<open>_requests_to_follow\<close>, statement by statement, as a transformer of the
  spider and the frame: \<open>rules\<close> is what is left of the list the \<open>for\<close> statement
  iterates over. The result is the frame at the end of the loop, or the exception
  raised, with the spider as the loop leaves it.
\<close>

fun requests_to_follow_steps ::
  "('e, 'f, 'v, 'i) env \<Rightarrow> response \<Rightarrow> ('e, 'f, string \<rightharpoonup> 'v) rule list
    \<Rightarrow> ('e, 'f, 'v, 'x) spider \<Rightarrow> ('f, 'v) frame
    \<Rightarrow> (exn + ('f, 'v) frame) \<times> ('e, 'f, 'v, 'x) spider" where
  "requests_to_follow_steps env resp [] self fr = (Inr fr, self)"
| "requests_to_follow_steps env resp (rule # rules) self fr =
     (case extract_urls env (link_extractor rule) resp of
        Inl e \<Rightarrow> (Inl e, self)
      | Inr extracted \<Rightarrow>
          (case (let links = filter (\<lambda>l. l \<notin> fr_seen fr) extracted
                 in if links \<noteq> [] \<and> truthy (process_links rule)
                    then apply_process_links env (process_links rule) links
                    else Inr links) of
             Inl e \<Rightarrow> (Inl e, self)
           | Inr links \<Rightarrow>
               requests_to_follow_steps env resp rules self
                 (fr\<lparr> fr_seen := fr_seen fr \<union> set links,
                     fr_requests := fr_requests fr @ map (make_request rule) links \<rparr>)))"

text \<open>
  One call \<open>self._requests_to_follow(response)\<close>: a new frame with \<open>requests = []\<close> and
  \<open>seen = set()\<close>, the loop over \<open>self._rules\<close>, and \<open>return requests\<close>. The call
  returns its value (or raises) and leaves the spider in some state.
\<close>

definition requests_to_follow_call ::
  "('e, 'f, 'v, 'i) env \<Rightarrow> response \<Rightarrow> ('e, 'f, 'v, 'x) spider
    \<Rightarrow> (exn + ('f, 'v) request list) \<times> ('e, 'f, 'v, 'x) spider" where
  "requests_to_follow_call env resp self =
     (case requests_to_follow_steps env resp (priv_rules self) self
             \<lparr> fr_requests = [], fr_seen = {} \<rparr> of
        (Inl e, self') \<Rightarrow> (Inl e, self')
      | (Inr fr, self') \<Rightarrow> (Inr (fr_requests fr), self'))"

section \<open>The result assembler: \<open>_response_downloaded\<close>\<close>

text \<open>\<open>x or ()\<close> on the value a callback returns: \<open>None\<close> and the empty list give \<open>()\<close>.\<close>

definition or_empty :: "'a list option \<Rightarrow> 'a list" where
  "or_empty ret = (case ret of None \<Rightarrow> [] | Some xs \<Rightarrow> if xs = [] then [] else xs)"

definition response_downloaded ::
  "('e, 'f, 'v, 'i) env \<Rightarrow> ('e, 'f, string \<rightharpoonup> 'v) rule list \<Rightarrow> response \<Rightarrow> 'f method_ref
    \<Rightarrow> (string \<rightharpoonup> 'v) \<Rightarrow> bool \<Rightarrow> exn + ('f, 'v, 'i) result list" where
  "response_downloaded env rules resp cb kw fol =
     (case (if fol \<and> getbool (settings env) ''CRAWLSPIDER_FOLLOW_LINKS'' True
            then requests_to_follow env rules resp else Inr []) of
        Inl e \<Rightarrow> Inl e
      | Inr reqs \<Rightarrow>
          (if truthy cb
           then (case apply_callback env cb resp kw of
                   Inl e \<Rightarrow> Inl e
                 | Inr ret \<Rightarrow>
                     (case process_results_hook env (or_empty ret) resp of
                        Inl e \<Rightarrow> Inl e
                      | Inr cb_res \<Rightarrow> Inr (map Req reqs @ cb_res)))
           else Inr (map Req reqs)))"

section \<open>The dispatcher: \<open>parse\<close>\<close>

text \<open>
  The loop of \<open>parse\<close> over the rules still to be tried; \<open>rules\<close> is all of
  \<open>self._rules\<close>, which \<open>_response_downloaded\<close> reads again. \<open>and\<close> does not call
  \<open>matches\<close> when the callback is false.
\<close>

fun parse_loop ::
  "('e, 'f, 'v, 'i) env \<Rightarrow> ('e, 'f, string \<rightharpoonup> 'v) rule list \<Rightarrow> response
    \<Rightarrow> ('e, 'f, string \<rightharpoonup> 'v) rule list \<Rightarrow> exn + ('f, 'v, 'i) result list" where
  "parse_loop env rules resp [] = response_downloaded env rules resp PyNone Map.empty True"
| "parse_loop env rules resp (rule # rest) =
     (if truthy (callback rule)
      then (case matches env (link_extractor rule) (resp_url resp) of
              Inl e \<Rightarrow> Inl e
            | Inr m \<Rightarrow>
                if m then response_downloaded env rules resp (callback rule) (cb_kwargs rule) True
                else parse_loop env rules resp rest)
      else parse_loop env rules resp rest)"

definition parse ::
  "('e, 'f, 'v, 'i) env \<Rightarrow> ('e, 'f, string \<rightharpoonup> 'v) rule list \<Rightarrow> response
    \<Rightarrow> exn + ('f, 'v, 'i) result list" where
  "parse env rules resp = parse_loop env rules resp rules"


section \<open>Rules as objects: construction and compilation on a heap\<close>

text \<open>
  \<open>Rule\<close> instances and dictionaries are mutable objects, and \<open>copy.copy\<close> is a shallow
  copy. Where a property depends on which objects are shared, rules live in a heap: a
  store of rule objects whose \<open>cb_kwargs\<close> field is the address of a dictionary object,
  a store of dictionary objects, and the next free address.
\<close>

type_synonym addr = nat

record ('e, 'f, 'v) heap =
  rule_objs :: "addr \<rightharpoonup> ('e, 'f, addr) rule"
  dict_objs :: "addr \<rightharpoonup> (string \<rightharpoonup> 'v)"
  next_addr :: addr

definition new_dict :: "('e, 'f, 'v) heap \<Rightarrow> (string \<rightharpoonup> 'v) \<Rightarrow> addr \<times> ('e, 'f, 'v) heap" where
  "new_dict h d =
     (next_addr h, h\<lparr> dict_objs := (dict_objs h)(next_addr h \<mapsto> d), next_addr := Suc (next_addr h) \<rparr>)"

definition new_rule :: "('e, 'f, 'v) heap \<Rightarrow> ('e, 'f, addr) rule \<Rightarrow> addr \<times> ('e, 'f, 'v) heap" where
  "new_rule h obj =
     (next_addr h, h\<lparr> rule_objs := (rule_objs h)(next_addr h \<mapsto> obj), next_addr := Suc (next_addr h) \<rparr>)"

text \<open>
  \<open>Rule.__init__\<close> on the heap. \<open>cb_kwargs or {}\<close> keeps the caller's dictionary object
  when it is not empty and makes a new empty dictionary otherwise. The result is the
  address of the new rule; \<open>None\<close> stands for an argument that is not an object of the
  heap, which Python cannot pass.
\<close>

definition Rule_init_obj ::
  "('e, 'f, 'v) heap \<Rightarrow> 'e \<Rightarrow> 'f method_ref \<Rightarrow> addr option \<Rightarrow> bool option \<Rightarrow> 'f method_ref
    \<Rightarrow> (addr \<times> ('e, 'f, 'v) heap) option" where
  "Rule_init_obj h le cb kw fo pl =
     (case (case kw of
              None \<Rightarrow> Some (new_dict h Map.empty)
            | Some a \<Rightarrow>
                (case dict_objs h a of
                   None \<Rightarrow> None
                 | Some m \<Rightarrow> if m = Map.empty then Some (new_dict h Map.empty) else Some (a, h))) of
        None \<Rightarrow> None
      | Some (d, h1) \<Rightarrow>
          Some (new_rule h1
            \<lparr> link_extractor = le, callback = cb, cb_kwargs = d,
              follow = (case fo of None \<Rightarrow> (if truthy cb then False else True) | Some b \<Rightarrow> b),
              process_links = pl \<rparr>))"

text \<open>\<open>[copy.copy(r) for r in self.rules]\<close>: a new rule object with the same field values.\<close>

fun copy_rules ::
  "('e, 'f, 'v) heap \<Rightarrow> addr list \<Rightarrow> (addr list \<times> ('e, 'f, 'v) heap) option" where
  "copy_rules h [] = Some ([], h)"
| "copy_rules h (a # as) =
     (case rule_objs h a of
        None \<Rightarrow> None
      | Some obj \<Rightarrow>
          (case new_rule h obj of
             (c, h1) \<Rightarrow>
               (case copy_rules h1 as of
                  None \<Rightarrow> None
                | Some (cs, h2) \<Rightarrow> Some (c # cs, h2))))"

text \<open>
  \<open>for rule in self._rules: rule.callback = get_method(rule.callback);
  rule.process_links = get_method(rule.process_links)\<close>.
\<close>

fun resolve_rules ::
  "(string \<rightharpoonup> 'f method_ref) \<Rightarrow> ('e, 'f, 'v) heap \<Rightarrow> addr list \<Rightarrow> ('e, 'f, 'v) heap option" where
  "resolve_rules attrs h [] = Some h"
| "resolve_rules attrs h (c # cs) =
     (case rule_objs h c of
        None \<Rightarrow> None
      | Some obj \<Rightarrow>
          resolve_rules attrs (h\<lparr> rule_objs := (rule_objs h)(c \<mapsto> compile_rule attrs obj) \<rparr>) cs)"

text \<open>
  \<open>_compile_rules\<close> on the heap: \<open>rules\<close> are the addresses in the class attribute
  \<open>rules\<close>, the addresses returned are the list stored in \<open>self._rules\<close>.
\<close>

definition compile_rules_obj ::
  "(string \<rightharpoonup> 'f method_ref) \<Rightarrow> ('e, 'f, 'v) heap \<Rightarrow> addr list
    \<Rightarrow> (addr list \<times> ('e, 'f, 'v) heap) option" where
  "compile_rules_obj attrs h rules =
     (case copy_rules h rules of
        None \<Rightarrow> None
      | Some (cs, h1) \<Rightarrow>
          (case resolve_rules attrs h1 cs of
             None \<Rightarrow> None
           | Some h2 \<Rightarrow> Some (cs, h2)))"

text \<open>The rule value read through an address: the fields, with the dictionary's contents.\<close>

definition rule_value ::
  "('e, 'f, 'v) heap \<Rightarrow> addr \<Rightarrow> ('e, 'f, string \<rightharpoonup> 'v) rule option" where
  "rule_value h a =
     (case rule_objs h a of
        None \<Rightarrow> None
      | Some obj \<Rightarrow>
          (case dict_objs h (cb_kwargs obj) of
             None \<Rightarrow> None
           | Some d \<Rightarrow>
               Some \<lparr> link_extractor = link_extractor obj, callback = callback obj, cb_kwargs = d,
                      follow = follow obj, process_links = process_links obj \<rparr>))"

text \<open>
  What a caller can do to a rule object afterwards: assign one of its five attributes
  (\<open>rule.follow = b\<close>; for \<open>cb_kwargs\<close> the value assigned is a dictionary object), or
  change its dictionary in place (\<open>rule.cb_kwargs[key] = value\<close>).
\<close>

datatype ('e, 'f, 'v) mutation =
    SetLinkExtractor 'e
  | SetCallback "'f method_ref"
  | SetCbKwargs addr
  | SetFollow bool
  | SetProcessLinks "'f method_ref"
  | CbKwargsSetItem string 'v

fun is_assignment :: "('e, 'f, 'v) mutation \<Rightarrow> bool" where
  "is_assignment (CbKwargsSetItem k v) = False"
| "is_assignment m = True"

fun mutate ::
  "('e, 'f, 'v) heap \<Rightarrow> addr \<Rightarrow> ('e, 'f, 'v) mutation \<Rightarrow> ('e, 'f, 'v) heap option" where
  "mutate h a m =
     (case rule_objs h a of
        None \<Rightarrow> None
      | Some obj \<Rightarrow>
          (case m of
             SetLinkExtractor le \<Rightarrow>
               Some (h\<lparr> rule_objs := (rule_objs h)(a \<mapsto> obj\<lparr> link_extractor := le \<rparr>) \<rparr>)
           | SetCallback cb \<Rightarrow>
               Some (h\<lparr> rule_objs := (rule_objs h)(a \<mapsto> obj\<lparr> callback := cb \<rparr>) \<rparr>)
           | SetCbKwargs d \<Rightarrow>
               Some (h\<lparr> rule_objs := (rule_objs h)(a \<mapsto> obj\<lparr> cb_kwargs := d \<rparr>) \<rparr>)
           | SetFollow b \<Rightarrow>
               Some (h\<lparr> rule_objs := (rule_objs h)(a \<mapsto> obj\<lparr> follow := b \<rparr>) \<rparr>)
           | SetProcessLinks pl \<Rightarrow>
               Some (h\<lparr> rule_objs := (rule_objs h)(a \<mapsto> obj\<lparr> process_links := pl \<rparr>) \<rparr>)
           | CbKwargsSetItem k v \<Rightarrow>
               (case dict_objs h (cb_kwargs obj) of
                  None \<Rightarrow> None
                | Some d \<Rightarrow>
                    Some (h\<lparr> dict_objs := (dict_objs h)(cb_kwargs obj \<mapsto> d(k \<mapsto> v)) \<rparr>))))"

text \<open>Every rule object of a heap was allocated below the next free address.\<close>

definition heap_ok :: "('e, 'f, 'v) heap \<Rightarrow> bool" where
  "heap_ok h = (\<forall>a. rule_objs h a \<noteq> None \<longrightarrow> a < next_addr h)"

section \<open>A concrete spider for the examples\<close>

text \<open>
  A link extractor of the examples is a list of path prefixes: a URL is in scope when it
  starts with one of them. The page of the examples links to \<open>/a/x\<close> and \<open>/b/y\<close>.
  Callable number 0 is a callback returning two items; callable number 1 is a
  \<open>process_links\<close> method that rewrites every link to \<open>/a/x\<close>; any other callable
  returns its input links, or \<open>None\<close> as a callback.
\<close>

definition in_scope :: "string list \<Rightarrow> string \<Rightarrow> bool" where
  "in_scope prefixes u = list_ex (\<lambda>p. take (length p) u = p) prefixes"

definition link_ax :: link where
  "link_ax = \<lparr> url = ''/a/x'', text = ''x'' \<rparr>"

definition link_by :: link where
  "link_by = \<lparr> url = ''/b/y'', text = ''y'' \<rparr>"

definition example_env :: "(string \<rightharpoonup> bool) \<Rightarrow> (string list, nat, string, string) env" where
  "example_env s =
     \<lparr> matches = (\<lambda>e u. Inr (in_scope e u)),
       extract_urls = (\<lambda>e resp. Inr (filter (\<lambda>l. in_scope e (url l)) [link_ax, link_by])),
       call_process_links = (\<lambda>f links. Inr (if f = 1 then map (\<lambda>l. link_ax) links else links)),
       call_callback = (\<lambda>f resp kw. Inr (if f = 0 then Some [Item ''I1'', Item ''I2''] else None)),
       process_results_hook = process_results,
       settings = s \<rparr>"

definition example_response :: response where
  "example_response = \<lparr> resp_url = ''/a/index'', resp_body = [] \<rparr>"

definition empty_heap :: "(string list, nat, string) heap" where
  "empty_heap = \<lparr> rule_objs = Map.empty, dict_objs = Map.empty, next_addr = 0 \<rparr>"

text \<open>
  The heaps of the examples: one template rule (object 1, with its dictionary, object
  0) as \<open>Rule(['/a'], callback='parse_item')\<close> builds it, then the heap after a first
  spider has compiled its rules (object 2) and after a second one has (object 3). The
  spiders have a method \<open>parse_item\<close>, callable number 0.
\<close>

definition template_obj :: "(string list, nat, addr) rule" where
  "template_obj =
     \<lparr> link_extractor = [''/a''], callback = Name ''parse_item'', cb_kwargs = 0,
       follow = False, process_links = PyNone \<rparr>"

definition compiled_obj :: "(string list, nat, addr) rule" where
  "compiled_obj =
     \<lparr> link_extractor = [''/a''], callback = Callable 0, cb_kwargs = 0,
       follow = False, process_links = PyNone \<rparr>"

definition heap_declared :: "(string list, nat, string) heap" where
  "heap_declared =
     \<lparr> rule_objs = [1 \<mapsto> template_obj], dict_objs = [0 \<mapsto> Map.empty], next_addr = 2 \<rparr>"

definition heap_one_spider :: "(string list, nat, string) heap" where
  "heap_one_spider =
     \<lparr> rule_objs = [1 \<mapsto> template_obj, 2 \<mapsto> compiled_obj],
       dict_objs = [0 \<mapsto> Map.empty], next_addr = 3 \<rparr>"

definition heap_two_spiders :: "(string list, nat, string) heap" where
  "heap_two_spiders =
     \<lparr> rule_objs = [1 \<mapsto> template_obj, 2 \<mapsto> compiled_obj, 3 \<mapsto> compiled_obj],
       dict_objs = [0 \<mapsto> Map.empty], next_addr = 4 \<rparr>"

section \<open>Properties of rule construction and compilation\<close>

lemma follow_compile_rule: "follow (compile_rule attrs r) = follow r"
  by (simp add: compile_rule_def)

lemma compile_rules_length: "length (compile_rules attrs rules) = length rules"
  by (simp add: compile_rules_def)

lemma compile_rules_nth:
  "i < length rules \<Longrightarrow> compile_rules attrs rules ! i = compile_rule attrs (rules ! i)"
  by (simp add: compile_rules_def)

lemma link_extractor_compile_rule: "link_extractor (compile_rule attrs r) = link_extractor r"
  by (simp add: compile_rule_def)

text \<open>
  Claim C4, amended. A rule constructed without \<open>follow\<close> compiles to \<open>follow = True\<close>
  when its callback is \<open>None\<close> or another false value (the empty string, a callable
  object that is false) and to \<open>follow = False\<close> when its callback is a true value (a
  function or method, a non-empty method name): the constructor evaluates
  \<open>False if callback else True\<close>. An explicit \<open>follow\<close> is kept. This holds for the rule
  at every position of the compiled list.
\<close>

theorem C4_follow_default:
  assumes "i < length ts"
    and "ts ! i = Rule_init le cb kw fo pl"
  shows "(fo = None \<longrightarrow> follow (compile_rules attrs ts ! i) = (\<not> truthy cb))
       \<and> (fo = None \<and> cb = PyNone \<longrightarrow> follow (compile_rules attrs ts ! i) = True)
       \<and> (fo = None \<and> cb = Callable f \<longrightarrow> follow (compile_rules attrs ts ! i) = False)
       \<and> (fo = None \<and> cb = Name s \<and> s \<noteq> [] \<longrightarrow> follow (compile_rules attrs ts ! i) = False)
       \<and> (fo = Some b \<longrightarrow> follow (compile_rules attrs ts ! i) = b)"
  using assms by (simp add: compile_rules_nth follow_compile_rule Rule_init_def)

theorem C4_follow_default_witness:
  "follow (compile_rules (Map.empty :: string \<rightharpoonup> nat method_ref)
      [Rule_init [''/a''] PyNone (None :: (string \<rightharpoonup> string) option) None PyNone] ! 0) = True
   \<and> follow (compile_rules (Map.empty :: string \<rightharpoonup> nat method_ref)
      [Rule_init [''/a''] (Callable 7) (None :: (string \<rightharpoonup> string) option) None PyNone] ! 0) = False
   \<and> follow (compile_rules (Map.empty :: string \<rightharpoonup> nat method_ref)
      [Rule_init [''/a''] (Name ''parse_item'') (None :: (string \<rightharpoonup> string) option) None PyNone] ! 0) = False
   \<and> follow (compile_rules (Map.empty :: string \<rightharpoonup> nat method_ref)
      [Rule_init [''/a''] (Callable 7) (None :: (string \<rightharpoonup> string) option) (Some True) PyNone] ! 0) = True"
  using
    C4_follow_default [where i = 0 and le = "[''/a'']" and cb = PyNone
      and kw = "None :: (string \<rightharpoonup> string) option" and fo = None and pl = PyNone and b = True
      and f = 7 and s = "''parse_item''"
      and attrs = "Map.empty :: string \<rightharpoonup> nat method_ref"
      and ts = "[Rule_init [''/a''] PyNone None None PyNone]"]
    C4_follow_default [where i = 0 and le = "[''/a'']" and cb = "Callable (7::nat)"
      and kw = "None :: (string \<rightharpoonup> string) option" and fo = None and pl = PyNone and b = True
      and f = 7 and s = "''parse_item''"
      and attrs = "Map.empty :: string \<rightharpoonup> nat method_ref"
      and ts = "[Rule_init [''/a''] (Callable 7) None None PyNone]"]
    C4_follow_default [where i = 0 and le = "[''/a'']" and cb = "Name ''parse_item''"
      and kw = "None :: (string \<rightharpoonup> string) option" and fo = None and pl = PyNone and b = True
      and f = 7 and s = "''parse_item''"
      and attrs = "Map.empty :: string \<rightharpoonup> nat method_ref"
      and ts = "[Rule_init [''/a''] (Name ''parse_item'') None None PyNone]"]
    C4_follow_default [where i = 0 and le = "[''/a'']" and cb = "Callable (7::nat)"
      and kw = "None :: (string \<rightharpoonup> string) option" and fo = "Some True" and pl = PyNone
      and b = True and f = 7 and s = "''parse_item''"
      and attrs = "Map.empty :: string \<rightharpoonup> nat method_ref"
      and ts = "[Rule_init [''/a''] (Callable 7) None (Some True) PyNone]"]
  by simp

text \<open>
  The claim as stated, with \<open>follow = False\<close> for every rule that has a callback, fails
  for a callback that is a false value: a callable object that is false, and the empty
  string, both give \<open>follow = True\<close>.
\<close>

theorem C4_false_callback_counterexample:
  "follow (compile_rules (Map.empty :: string \<rightharpoonup> nat method_ref)
      [Rule_init [''/a''] (FalseCallable 7) (None :: (string \<rightharpoonup> string) option) None PyNone] ! 0)
     = True
   \<and> callback (compile_rules (Map.empty :: string \<rightharpoonup> nat method_ref)
      [Rule_init [''/a''] (FalseCallable 7) (None :: (string \<rightharpoonup> string) option) None PyNone] ! 0)
     = FalseCallable 7
   \<and> follow (compile_rules (Map.empty :: string \<rightharpoonup> nat method_ref)
      [Rule_init [''/b''] (Name []) (None :: (string \<rightharpoonup> string) option) None PyNone] ! 0)
     = True"
  by (simp add: compile_rules_def compile_rule_def Rule_init_def)

text \<open>
  Claim C10, amended. A rule built with a non-empty string as \<open>callback\<close> and no explicit
  \<open>follow\<close> has \<open>follow = False\<close> after compilation, which is the value set by the
  constructor. When the string names no attribute of the spider, the compiled rule has
  callback \<open>None\<close> and \<open>follow = False\<close>, and it neither processes pages nor follows
  links: \<open>parse\<close> passes over it, and for the response of any request built for one of
  its links \<open>_response_downloaded\<close>, called with the continuation of that request,
  returns the empty list, for every callback and hook of the environment.
\<close>

theorem C10_follow_fixed_at_construction:
  assumes "i < length ts"
    and "ts ! i = Rule_init le (Name s) kw None pl"
    and "s \<noteq> []"
  shows "follow (compile_rules attrs ts ! i) = False
       \<and> follow (compile_rules attrs ts ! i) = follow (ts ! i)
       \<and> (attrs s = None \<longrightarrow>
            callback (compile_rules attrs ts ! i) = PyNone
          \<and> parse_loop env rules resp (compile_rules attrs ts ! i # rest)
              = parse_loop env rules resp rest
          \<and> r_callback (make_request (compile_rules attrs ts ! i) l) = PyNone
          \<and> r_follow (make_request (compile_rules attrs ts ! i) l) = False
          \<and> response_downloaded env rules resp'
                (r_callback (make_request (compile_rules attrs ts ! i) l))
                (r_cb_kwargs (make_request (compile_rules attrs ts ! i) l))
                (r_follow (make_request (compile_rules attrs ts ! i) l)) = Inr [])"
proof -
  let ?c = "compile_rules attrs ts ! i"
  have c: "?c = compile_rule attrs (Rule_init le (Name s) kw None pl)"
    using assms(1,2) by (simp add: compile_rules_nth)
  have f: "follow ?c = False"
    using assms(3) by (simp add: c compile_rule_def Rule_init_def)
  have f': "follow ?c = follow (ts ! i)"
    using assms(2) by (simp add: c follow_compile_rule)
  have rest: "callback ?c = PyNone
          \<and> parse_loop env rules resp (?c # rest) = parse_loop env rules resp rest
          \<and> r_callback (make_request ?c l) = PyNone
          \<and> r_follow (make_request ?c l) = False
          \<and> response_downloaded env rules resp'
                (r_callback (make_request ?c l)) (r_cb_kwargs (make_request ?c l))
                (r_follow (make_request ?c l)) = Inr []"
    if "attrs s = None"
  proof -
    have cb: "callback ?c = PyNone"
      using that by (simp add: c compile_rule_def Rule_init_def)
    have "parse_loop env rules resp (?c # rest) = parse_loop env rules resp rest"
      using cb by simp
    moreover have "r_callback (make_request ?c l) = PyNone"
      using cb by (simp add: make_request_def)
    moreover have "r_follow (make_request ?c l) = False"
      using f by (simp add: make_request_def)
    ultimately show ?thesis
      using cb by (simp add: response_downloaded_def)
  qed
  from f f' rest show ?thesis by blast
qed

theorem C10_follow_fixed_at_construction_witness:
  "follow (compile_rules (Map.empty :: string \<rightharpoonup> nat method_ref)
      [Rule_init [''/a''] (Name ''parse_item'') (None :: (string \<rightharpoonup> string) option) None PyNone] ! 0) = False
   \<and> callback (compile_rules (Map.empty :: string \<rightharpoonup> nat method_ref)
      [Rule_init [''/a''] (Name ''parse_item'') (None :: (string \<rightharpoonup> string) option) None PyNone] ! 0) = PyNone
   \<and> response_downloaded (example_env Map.empty) [] example_response
        (r_callback (make_request (compile_rules (Map.empty :: string \<rightharpoonup> nat method_ref)
          [Rule_init [''/a''] (Name ''parse_item'') (None :: (string \<rightharpoonup> string) option) None PyNone] ! 0)
          link_ax))
        (r_cb_kwargs (make_request (compile_rules (Map.empty :: string \<rightharpoonup> nat method_ref)
          [Rule_init [''/a''] (Name ''parse_item'') (None :: (string \<rightharpoonup> string) option) None PyNone] ! 0)
          link_ax))
        (r_follow (make_request (compile_rules (Map.empty :: string \<rightharpoonup> nat method_ref)
          [Rule_init [''/a''] (Name ''parse_item'') (None :: (string \<rightharpoonup> string) option) None PyNone] ! 0)
          link_ax)) = Inr []"
proof -
  let ?ts = "[Rule_init [''/a''] (Name ''parse_item'') (None :: (string \<rightharpoonup> string) option) None
    (PyNone :: nat method_ref)]"
  have a: "0 < length ?ts" by simp
  have b: "?ts ! 0 = Rule_init [''/a''] (Name ''parse_item'') None None PyNone" by simp
  have c: "''parse_item'' \<noteq> []" by simp
  have e: "(Map.empty :: string \<rightharpoonup> nat method_ref) ''parse_item'' = None" by simp
  from C10_follow_fixed_at_construction [OF a b c,
      where attrs = "Map.empty :: string \<rightharpoonup> nat method_ref"
      and env = "example_env Map.empty" and rules = "[]" and rest = "[]"
      and resp = example_response and resp' = example_response and l = link_ax] e
  show ?thesis by blast
qed

text \<open>
  The claim as stated, for every string-valued callback, fails at the empty string:
  \<open>False if callback else True\<close> is \<open>True\<close> for it. And a string that names an
  attribute of the spider which is not a method (\<open>callback='domain_name'\<close>, a string)
  does not compile to \<open>None\<close>: \<open>getattr\<close> returns the attribute as it is.
\<close>

theorem C10_empty_name_counterexample:
  "follow (compile_rules (Map.empty :: string \<rightharpoonup> nat method_ref)
      [Rule_init [''/a''] (Name []) (None :: (string \<rightharpoonup> string) option) None PyNone] ! 0) = True
   \<and> callback (compile_rules [''domain_name'' \<mapsto> (Name ''example.com'' :: nat method_ref)]
      [Rule_init [''/a''] (Name ''domain_name'') (None :: (string \<rightharpoonup> string) option) None
         PyNone] ! 0) = Name ''example.com''"
  by (simp add: compile_rules_def compile_rule_def Rule_init_def)

section \<open>Properties of the link collector\<close>

text \<open>
  Claim C1. Two rules without \<open>process_links\<close>, the first extracting the link \<open>la\<close>
  (\<open>/a/x\<close>) and the second extracting \<open>la\<close> and \<open>lb\<close> (\<open>/b/y\<close>): the collector returns
  exactly one request for \<open>la\<close>, carrying the first rule's callback, keyword arguments
  and follow flag, then one request for \<open>lb\<close> carrying the second rule's; \<open>la\<close> is not
  requested again for the second rule.
\<close>

theorem C1_first_rule_wins:
  assumes "extract_urls env (link_extractor r1) resp = Inr [la]"
    and "extract_urls env (link_extractor r2) resp = Inr [la, lb]"
    and "la \<noteq> lb"
    and "process_links r1 = PyNone"
    and "process_links r2 = PyNone"
  shows "requests_to_follow env [r1, r2] resp =
           Inr [\<lparr> r_url = url la, r_link_text = text la, r_callback = callback r1,
                  r_cb_kwargs = cb_kwargs r1, r_follow = follow r1 \<rparr>,
                \<lparr> r_url = url lb, r_link_text = text lb, r_callback = callback r2,
                  r_cb_kwargs = cb_kwargs r2, r_follow = follow r2 \<rparr>]"
  using assms by (simp add: requests_to_follow_def make_request_def)

theorem C1_first_rule_wins_witness:
  "requests_to_follow (example_env Map.empty)
     (compile_rules [''parse_b'' \<mapsto> Callable 2]
        [Rule_init [''/a''] (Callable 0) (Some [''site'' \<mapsto> ''a'']) None PyNone,
         Rule_init [''/a'', ''/b''] (Name ''parse_b'') None (Some True) PyNone])
     example_response =
   Inr [\<lparr> r_url = ''/a/x'', r_link_text = ''x'', r_callback = Callable 0,
          r_cb_kwargs = [''site'' \<mapsto> ''a''], r_follow = False \<rparr>,
        \<lparr> r_url = ''/b/y'', r_link_text = ''y'', r_callback = Callable 2,
          r_cb_kwargs = Map.empty, r_follow = True \<rparr>]"
  using C1_first_rule_wins [where env = "example_env Map.empty" and resp = example_response
      and la = link_ax and lb = link_by
      and ?r1.0 = "compile_rule [''parse_b'' \<mapsto> Callable 2]
            (Rule_init [''/a''] (Callable 0) (Some [''site'' \<mapsto> ''a'']) None PyNone)"
      and ?r2.0 = "compile_rule [''parse_b'' \<mapsto> Callable 2]
            (Rule_init [''/a'', ''/b''] (Name ''parse_b'') None (Some True) PyNone)"]
  by (simp add: example_env_def in_scope_def link_ax_def link_by_def compile_rules_def
      compile_rule_def Rule_init_def)

lemma loop_no_processor:
  "process_links c = PyNone \<Longrightarrow>
   requests_to_follow_loop env resp reqs seen (c # rest) =
     (case extract_urls env (link_extractor c) resp of
        Inl e \<Rightarrow> Inl e
      | Inr extracted \<Rightarrow>
          requests_to_follow_loop env resp
            (reqs @ map (make_request c) (filter (\<lambda>l. l \<notin> seen) extracted))
            (seen \<union> set (filter (\<lambda>l. l \<notin> seen) extracted)) rest)"
  by (simp add: Let_def split: sum.splits)







lemma requests_to_follow_steps_spider:
  "snd (requests_to_follow_steps env resp rules self fr) = self"
proof (induction rules arbitrary: fr)
  case Nil
  show ?case by simp
next
  case (Cons r rules)
  show ?case by (simp add: Cons.IH Let_def split: sum.splits)
qed

lemma requests_to_follow_steps_result:
  "fst (requests_to_follow_steps env resp rules self fr) =
     (case requests_to_follow_loop env resp (fr_requests fr) (fr_seen fr) rules of
        Inl e \<Rightarrow> Inl e
      | Inr (requests, seen) \<Rightarrow> Inr \<lparr> fr_requests = requests, fr_seen = seen \<rparr>)"
proof (induction rules arbitrary: fr)
  case Nil
  show ?case by simp
next
  case (Cons r rules)
  show ?case by (simp add: Cons.IH Let_def split: sum.splits)
qed

lemma requests_to_follow_call_eq:
  "requests_to_follow_call env resp self = (requests_to_follow env (priv_rules self) resp, self)"
proof -
  obtain res self' where
    st: "requests_to_follow_steps env resp (priv_rules self) self
           \<lparr> fr_requests = [], fr_seen = {} \<rparr> = (res, self')"
    by (cases "requests_to_follow_steps env resp (priv_rules self) self
           \<lparr> fr_requests = [], fr_seen = {} \<rparr>")
  have s: "self' = self"
    using requests_to_follow_steps_spider [of env resp "priv_rules self" self
        "\<lparr> fr_requests = [], fr_seen = {} \<rparr>"] st by simp
  have r: "res = (case requests_to_follow_loop env resp [] {} (priv_rules self) of
        Inl e \<Rightarrow> Inl e
      | Inr (requests, seen) \<Rightarrow> Inr \<lparr> fr_requests = requests, fr_seen = seen \<rparr>)"
    using requests_to_follow_steps_result [of env resp "priv_rules self" self
        "\<lparr> fr_requests = [], fr_seen = {} \<rparr>"] st by simp
  show ?thesis
    by (simp add: requests_to_follow_call_def st s r requests_to_follow_def
        split: sum.splits prod.splits)
qed

text \<open>
  Claim C8. A call of \<open>_requests_to_follow\<close> leaves the spider as it found it: the
  dedup set and the request list are in the frame of the call, started at \<open>set()\<close> and
  \<open>[]\<close> and gone at the return. So two calls in a row on the same response return the
  same sequence of requests (or raise the same exception), and the spider is the same
  after each of them. The extractors and the link processors are functions of their
  arguments, as the claim takes them.
\<close>

theorem C8_collector_stateless:
  assumes "requests_to_follow_call env resp self = (first, self1)"
    and "requests_to_follow_call env resp self1 = (second, self2)"
  shows "self1 = self \<and> self2 = self \<and> second = first
       \<and> first = requests_to_follow env (priv_rules self) resp"
  using assms by (auto simp: requests_to_follow_call_eq)

text \<open>
  In the example the first call ends its loop with \<open>seen = {/b/y}\<close>; the second call
  returns the request for \<open>/b/y\<close> again, where a loop entered with that set would
  return no request.
\<close>

theorem C8_collector_stateless_witness:
  "requests_to_follow_call (example_env Map.empty) example_response
     \<lparr> priv_rules = compile_rules Map.empty [Rule_init [''/b''] (Callable 0) None None PyNone],
       other_attrs = () \<rparr> =
   (Inr [\<lparr> r_url = ''/b/y'', r_link_text = ''y'', r_callback = Callable 0,
           r_cb_kwargs = Map.empty, r_follow = False \<rparr>],
    \<lparr> priv_rules = compile_rules Map.empty [Rule_init [''/b''] (Callable 0) None None PyNone],
      other_attrs = () \<rparr>)
   \<and> requests_to_follow_steps (example_env Map.empty) example_response
     (compile_rules Map.empty [Rule_init [''/b''] (Callable 0) None None PyNone])
     \<lparr> priv_rules = compile_rules Map.empty [Rule_init [''/b''] (Callable 0) None None PyNone],
       other_attrs = () \<rparr>
     \<lparr> fr_requests = [], fr_seen = {link_by} \<rparr> =
   (Inr \<lparr> fr_requests = [], fr_seen = {link_by} \<rparr>,
    \<lparr> priv_rules = compile_rules Map.empty [Rule_init [''/b''] (Callable 0) None None PyNone],
      other_attrs = () \<rparr>)"
proof -
  let ?rules = "compile_rules Map.empty [Rule_init [''/b''] (Callable (0::nat)) None None PyNone]
    :: (string list, nat, string \<rightharpoonup> string) rule list"
  let ?self = "\<lparr> priv_rules = ?rules, other_attrs = () \<rparr>"
  let ?first = "Inr [\<lparr> r_url = ''/b/y'', r_link_text = ''y'', r_callback = Callable (0::nat),
           r_cb_kwargs = (Map.empty :: string \<rightharpoonup> string), r_follow = False \<rparr>]
    :: exn + (nat, string) request list"
  have one: "requests_to_follow_call (example_env Map.empty) example_response ?self
      = (?first, ?self)"
    by (simp add: requests_to_follow_call_def example_env_def in_scope_def link_ax_def
        link_by_def compile_rules_def compile_rule_def Rule_init_def make_request_def)
  have two: "requests_to_follow_steps (example_env Map.empty) example_response ?rules ?self
      \<lparr> fr_requests = [], fr_seen = {link_by} \<rparr>
      = (Inr \<lparr> fr_requests = [], fr_seen = {link_by} \<rparr>, ?self)"
    by (simp add: example_env_def in_scope_def link_ax_def link_by_def compile_rules_def
        compile_rule_def Rule_init_def make_request_def)
  from C8_collector_stateless [OF one one] one two show ?thesis by simp
qed

section \<open>Properties of the result assembler and the dispatcher\<close>

text \<open>
  Claim C2, amended. With \<open>follow=True\<close>, the global option true, a callback that is
  a true value (\<open>Callable f\<close>: a function or method, or any callable object that is
  true) and returns \<open>[i1, i2]\<close>, the default \<open>process_results\<close>, and a link collection
  that yields the requests \<open>q1\<close> then \<open>q2\<close>, \<open>_response_downloaded\<close> returns
  \<open>[q1, q2, i1, i2]\<close> in this order.
\<close>

theorem C2_batch_order:
  assumes "getbool (settings env) ''CRAWLSPIDER_FOLLOW_LINKS'' True"
    and "requests_to_follow env rules resp = Inr [q1, q2]"
    and "call_callback env f resp kw = Inr (Some [i1, i2])"
    and "process_results_hook env = process_results"
  shows "response_downloaded env rules resp (Callable f) kw True = Inr [Req q1, Req q2, i1, i2]"
  using assms by (simp add: response_downloaded_def or_empty_def process_results_def)

theorem C2_batch_order_witness:
  "response_downloaded (example_env Map.empty)
     (compile_rules Map.empty [Rule_init [''/a'', ''/b''] PyNone None None PyNone])
     example_response (Callable 0) Map.empty True =
   Inr [Req \<lparr> r_url = ''/a/x'', r_link_text = ''x'', r_callback = PyNone,
               r_cb_kwargs = Map.empty, r_follow = True \<rparr>,
        Req \<lparr> r_url = ''/b/y'', r_link_text = ''y'', r_callback = PyNone,
               r_cb_kwargs = Map.empty, r_follow = True \<rparr>,
        Item ''I1'', Item ''I2'']"
  using C2_batch_order [where env = "example_env Map.empty" and resp = example_response
      and rules = "compile_rules Map.empty [Rule_init [''/a'', ''/b''] PyNone None None PyNone]"
      and f = 0 and kw = Map.empty and ?i1.0 = "Item ''I1''" and ?i2.0 = "Item ''I2''"
      and ?q1.0 = "\<lparr> r_url = ''/a/x'', r_link_text = ''x'', r_callback = PyNone,
               r_cb_kwargs = Map.empty, r_follow = True \<rparr>"
      and ?q2.0 = "\<lparr> r_url = ''/b/y'', r_link_text = ''y'', r_callback = PyNone,
               r_cb_kwargs = Map.empty, r_follow = True \<rparr>"]
  by (simp add: example_env_def in_scope_def link_ax_def link_by_def compile_rules_def
      compile_rule_def Rule_init_def getbool_def requests_to_follow_def make_request_def)

text \<open>
  The claim as stated, for every callback that is not \<open>None\<close>, fails for a callable
  object that is false: \<open>if callback:\<close> is then not taken, the callback is never called
  and the batch holds the follow-requests only.
\<close>

theorem C2_false_callable_counterexample:
  "getbool (settings (example_env Map.empty)) ''CRAWLSPIDER_FOLLOW_LINKS'' True
   \<and> requests_to_follow (example_env Map.empty)
       (compile_rules Map.empty [Rule_init [''/a'', ''/b''] PyNone None None PyNone])
       example_response =
     Inr [\<lparr> r_url = ''/a/x'', r_link_text = ''x'', r_callback = PyNone,
            r_cb_kwargs = Map.empty, r_follow = True \<rparr>,
          \<lparr> r_url = ''/b/y'', r_link_text = ''y'', r_callback = PyNone,
            r_cb_kwargs = Map.empty, r_follow = True \<rparr>]
   \<and> call_callback (example_env Map.empty) 0 example_response Map.empty
     = Inr (Some [Item ''I1'', Item ''I2''])
   \<and> response_downloaded (example_env Map.empty)
       (compile_rules Map.empty [Rule_init [''/a'', ''/b''] PyNone None None PyNone])
       example_response (FalseCallable 0) Map.empty True =
     Inr [Req \<lparr> r_url = ''/a/x'', r_link_text = ''x'', r_callback = PyNone,
                 r_cb_kwargs = Map.empty, r_follow = True \<rparr>,
          Req \<lparr> r_url = ''/b/y'', r_link_text = ''y'', r_callback = PyNone,
                 r_cb_kwargs = Map.empty, r_follow = True \<rparr>]"
  by (simp add: example_env_def in_scope_def link_ax_def link_by_def compile_rules_def
      compile_rule_def Rule_init_def getbool_def requests_to_follow_def make_request_def
      response_downloaded_def)

lemma requests_to_follow_loop_settings:
  "requests_to_follow_loop (env\<lparr> settings := s \<rparr>) resp reqs seen rules
     = requests_to_follow_loop env resp reqs seen rules"
proof (induction rules arbitrary: reqs seen)
  case Nil
  show ?case by simp
next
  case (Cons r rules)
  have h: "apply_process_links (env\<lparr> settings := s \<rparr>) m links = apply_process_links env m links"
    for m links by (cases m) simp_all
  show ?case by (simp add: h Cons.IH Let_def cong: sum.case_cong if_cong)
qed

lemma requests_to_follow_settings:
  "requests_to_follow (env\<lparr> settings := s \<rparr>) rules resp = requests_to_follow env rules resp"
  by (simp add: requests_to_follow_def requests_to_follow_loop_settings)

lemma apply_callback_settings:
  "apply_callback (env\<lparr> settings := s \<rparr>) cb resp kw = apply_callback env cb resp kw"
  by (cases cb) simp_all

text \<open>
  Claim C5. When the option \<open>CRAWLSPIDER_FOLLOW_LINKS\<close> is false, the batch of
  \<open>_response_downloaded\<close> is the callback's (post-processed) results alone, for every
  rule list and every \<open>follow\<close> argument; and with the option on, the batch is the
  follow-requests followed by that same batch.
\<close>

theorem C5_global_switch:
  assumes "settings env ''CRAWLSPIDER_FOLLOW_LINKS'' = Some False"
  shows "response_downloaded env rules resp cb kw fol =
           (if truthy cb
            then (case apply_callback env cb resp kw of
                    Inl e \<Rightarrow> Inl e
                  | Inr ret \<Rightarrow> process_results_hook env (or_empty ret) resp)
            else Inr [])
       \<and> (s ''CRAWLSPIDER_FOLLOW_LINKS'' \<noteq> Some False
            \<and> requests_to_follow env rules resp = Inr reqs
          \<longrightarrow> response_downloaded (env\<lparr> settings := s \<rparr>) rules resp cb kw True =
                (case response_downloaded env rules resp cb kw fol of
                   Inl e \<Rightarrow> Inl e
                 | Inr batch \<Rightarrow> Inr (map Req reqs @ batch)))"
proof -
  have off: "getbool (settings env) ''CRAWLSPIDER_FOLLOW_LINKS'' True = False"
    using assms by (simp add: getbool_def)
  have first: "response_downloaded env rules resp cb kw fol =
           (if truthy cb
            then (case apply_callback env cb resp kw of
                    Inl e \<Rightarrow> Inl e
                  | Inr ret \<Rightarrow> process_results_hook env (or_empty ret) resp)
            else Inr [])"
    by (simp add: response_downloaded_def off split: sum.splits)
  have second: "response_downloaded (env\<lparr> settings := s \<rparr>) rules resp cb kw True =
                (case response_downloaded env rules resp cb kw fol of
                   Inl e \<Rightarrow> Inl e
                 | Inr batch \<Rightarrow> Inr (map Req reqs @ batch))"
    if on: "s ''CRAWLSPIDER_FOLLOW_LINKS'' \<noteq> Some False"
      and rq: "requests_to_follow env rules resp = Inr reqs"
  proof -
    have "getbool s ''CRAWLSPIDER_FOLLOW_LINKS'' True"
      using on by (cases "s ''CRAWLSPIDER_FOLLOW_LINKS''") (auto simp: getbool_def)
    then have "response_downloaded (env\<lparr> settings := s \<rparr>) rules resp cb kw True =
           (if truthy cb
            then (case apply_callback env cb resp kw of
                    Inl e \<Rightarrow> Inl e
                  | Inr ret \<Rightarrow>
                      (case process_results_hook env (or_empty ret) resp of
                         Inl e \<Rightarrow> Inl e
                       | Inr cb_res \<Rightarrow> Inr (map Req reqs @ cb_res)))
            else Inr (map Req reqs))"
      by (simp add: response_downloaded_def requests_to_follow_settings apply_callback_settings rq
          cong: sum.case_cong)
    then show ?thesis
      by (simp add: first split: sum.splits)
  qed
  from first second show ?thesis by blast
qed

theorem C5_global_switch_witness:
  "response_downloaded (example_env [''CRAWLSPIDER_FOLLOW_LINKS'' \<mapsto> False])
     (compile_rules Map.empty [Rule_init [''/a'', ''/b''] PyNone None (Some True) PyNone])
     example_response (Callable 0) Map.empty True
   = Inr [Item ''I1'', Item ''I2'']
   \<and> response_downloaded (example_env Map.empty)
     (compile_rules Map.empty [Rule_init [''/a'', ''/b''] PyNone None (Some True) PyNone])
     example_response (Callable 0) Map.empty True
   = Inr [Req \<lparr> r_url = ''/a/x'', r_link_text = ''x'', r_callback = PyNone,
               r_cb_kwargs = Map.empty, r_follow = True \<rparr>,
        Req \<lparr> r_url = ''/b/y'', r_link_text = ''y'', r_callback = PyNone,
               r_cb_kwargs = Map.empty, r_follow = True \<rparr>,
        Item ''I1'', Item ''I2'']"
  using C5_global_switch [where env = "example_env [''CRAWLSPIDER_FOLLOW_LINKS'' \<mapsto> False]"
      and resp = example_response and cb = "Callable 0" and kw = Map.empty and fol = True
      and rules = "compile_rules Map.empty [Rule_init [''/a'', ''/b''] PyNone None (Some True) PyNone]"
      and s = Map.empty
      and reqs = "[\<lparr> r_url = ''/a/x'', r_link_text = ''x'', r_callback = PyNone,
               r_cb_kwargs = Map.empty, r_follow = True \<rparr>,
          \<lparr> r_url = ''/b/y'', r_link_text = ''y'', r_callback = PyNone,
               r_cb_kwargs = Map.empty, r_follow = True \<rparr>]"]
  by (simp add: example_env_def in_scope_def link_ax_def link_by_def compile_rules_def
      compile_rule_def Rule_init_def requests_to_follow_def make_request_def or_empty_def
      process_results_def)

lemma parse_loop_skip:
  assumes "\<forall>p\<in>set pre. \<not> truthy (callback p) \<or> matches env (link_extractor p) (resp_url resp) = Inr False"
  shows "parse_loop env rules resp (pre @ rest) = parse_loop env rules resp rest"
  using assms by (induction pre) auto

lemma parse_loop_no_callback:
  "callback c = PyNone \<Longrightarrow> parse_loop env rules resp (c # rest) = parse_loop env rules resp rest"
  by simp

text \<open>
  Claim C3, amended. For every rule list, \<open>parse\<close> hands the response to
  \<open>_response_downloaded\<close> with the callback and keyword arguments of the first rule
  whose callback is true (\<open>if rule.callback and \<dots>\<close>; a callback that is not \<open>None\<close> but
  false is passed over) and whose extractor matches the URL of the response, whatever
  the later rules match; when no rule has both, it hands it over with no callback and
  empty keyword arguments. In both cases \<open>follow\<close> is \<open>True\<close>.
\<close>

theorem C3_first_match:
  "(rules = pre @ r # post
      \<and> (\<forall>p\<in>set pre. \<not> truthy (callback p)
            \<or> matches env (link_extractor p) (resp_url resp) = Inr False)
      \<and> truthy (callback r)
      \<and> matches env (link_extractor r) (resp_url resp) = Inr True
      \<longrightarrow> parse env rules resp
            = response_downloaded env rules resp (callback r) (cb_kwargs r) True)
   \<and> ((\<forall>p\<in>set rules. \<not> truthy (callback p)
            \<or> matches env (link_extractor p) (resp_url resp) = Inr False)
      \<longrightarrow> parse env rules resp = response_downloaded env rules resp PyNone Map.empty True)"
proof (intro conjI impI)
  assume a: "rules = pre @ r # post
      \<and> (\<forall>p\<in>set pre. \<not> truthy (callback p)
            \<or> matches env (link_extractor p) (resp_url resp) = Inr False)
      \<and> truthy (callback r)
      \<and> matches env (link_extractor r) (resp_url resp) = Inr True"
  then have skip: "\<forall>p\<in>set pre. \<not> truthy (callback p)
      \<or> matches env (link_extractor p) (resp_url resp) = Inr False"
    by blast
  from a have "parse_loop env rules resp (r # post)
      = response_downloaded env rules resp (callback r) (cb_kwargs r) True"
    by simp
  with a parse_loop_skip [OF skip, of rules "r # post"]
  show "parse env rules resp = response_downloaded env rules resp (callback r) (cb_kwargs r) True"
    by (simp add: parse_def)
next
  assume skip: "\<forall>p\<in>set rules. \<not> truthy (callback p)
      \<or> matches env (link_extractor p) (resp_url resp) = Inr False"
  from parse_loop_skip [OF skip, of rules "[]"]
  show "parse env rules resp = response_downloaded env rules resp PyNone Map.empty True"
    by (simp add: parse_def)
qed

theorem C3_first_match_witness:
  "parse (example_env Map.empty)
     (compile_rules [''parse_a'' \<mapsto> Callable 2]
        [Rule_init [''/a''] PyNone None None PyNone,
         Rule_init [''/b''] (Callable 0) None None PyNone,
         Rule_init [''/a''] (Name ''parse_a'') (Some [''k'' \<mapsto> ''v'']) None PyNone,
         Rule_init [''/a''] (Callable 0) None None PyNone])
     example_response =
   response_downloaded (example_env Map.empty)
     (compile_rules [''parse_a'' \<mapsto> Callable 2]
        [Rule_init [''/a''] PyNone None None PyNone,
         Rule_init [''/b''] (Callable 0) None None PyNone,
         Rule_init [''/a''] (Name ''parse_a'') (Some [''k'' \<mapsto> ''v'']) None PyNone,
         Rule_init [''/a''] (Callable 0) None None PyNone])
     example_response (Callable 2) [''k'' \<mapsto> ''v''] True
   \<and> parse (example_env Map.empty)
     (compile_rules Map.empty
        [Rule_init [''/a''] PyNone None None PyNone,
         Rule_init [''/b''] (Callable 0) None None PyNone])
     example_response =
   response_downloaded (example_env Map.empty)
     (compile_rules Map.empty
        [Rule_init [''/a''] PyNone None None PyNone,
         Rule_init [''/b''] (Callable 0) None None PyNone])
     example_response PyNone Map.empty True"
  using
    C3_first_match [where env = "example_env Map.empty" and resp = example_response
      and rules = "compile_rules [''parse_a'' \<mapsto> Callable 2]
        [Rule_init [''/a''] PyNone None None PyNone,
         Rule_init [''/b''] (Callable 0) None None PyNone,
         Rule_init [''/a''] (Name ''parse_a'') (Some [''k'' \<mapsto> ''v'']) None PyNone,
         Rule_init [''/a''] (Callable 0) None None PyNone]"
      and pre = "compile_rules [''parse_a'' \<mapsto> Callable 2]
        [Rule_init [''/a''] PyNone None None PyNone,
         Rule_init [''/b''] (Callable 0) None None PyNone]"
      and r = "compile_rule [''parse_a'' \<mapsto> Callable 2]
         (Rule_init [''/a''] (Name ''parse_a'') (Some [''k'' \<mapsto> ''v'']) None PyNone)"
      and post = "compile_rules [''parse_a'' \<mapsto> Callable 2]
         [Rule_init [''/a''] (Callable 0) None None PyNone]"]
    C3_first_match [where env = "example_env Map.empty" and resp = example_response
      and rules = "compile_rules Map.empty
        [Rule_init [''/a''] PyNone None None PyNone,
         Rule_init [''/b''] (Callable 0) None None PyNone]"
      and pre = "[]"
      and r = "compile_rule Map.empty (Rule_init [''/a''] PyNone None None PyNone)"
      and post = "[]"]
  by (simp add: example_env_def example_response_def in_scope_def compile_rules_def
      compile_rule_def Rule_init_def)

text \<open>
  The claim as stated, with the first rule whose callback is not \<open>None\<close>, fails on a
  compiled rule list whose first rule names an attribute of the spider that is a false
  value (\<open>callback='start_urls'\<close>, an empty list): its compiled callback is not \<open>None\<close>
  and its extractor matches, yet \<open>parse\<close> passes over it and processes the page with
  the second rule's callback.
\<close>

theorem C3_false_callback_counterexample:
  "callback (compile_rules [''start_urls'' \<mapsto> Other False]
       [Rule_init [''/a''] (Name ''start_urls'') (Some [''k'' \<mapsto> ''v'']) None PyNone,
        Rule_init [''/a''] (Callable 0) None None PyNone] ! 0) = Other False
   \<and> matches (example_env Map.empty)
       (link_extractor (compile_rules [''start_urls'' \<mapsto> Other False]
          [Rule_init [''/a''] (Name ''start_urls'') (Some [''k'' \<mapsto> ''v'']) None PyNone,
           Rule_init [''/a''] (Callable 0) None None PyNone] ! 0))
       (resp_url example_response) = Inr True
   \<and> parse (example_env Map.empty)
       (compile_rules [''start_urls'' \<mapsto> Other False]
          [Rule_init [''/a''] (Name ''start_urls'') (Some [''k'' \<mapsto> ''v'']) None PyNone,
           Rule_init [''/a''] (Callable 0) None None PyNone])
       example_response =
     Inr [Req \<lparr> r_url = ''/a/x'', r_link_text = ''x'', r_callback = Other False,
                 r_cb_kwargs = [''k'' \<mapsto> ''v''], r_follow = False \<rparr>,
          Item ''I1'', Item ''I2'']
   \<and> response_downloaded (example_env Map.empty)
       (compile_rules [''start_urls'' \<mapsto> Other False]
          [Rule_init [''/a''] (Name ''start_urls'') (Some [''k'' \<mapsto> ''v'']) None PyNone,
           Rule_init [''/a''] (Callable 0) None None PyNone])
       example_response (Other False) [''k'' \<mapsto> ''v''] True =
     Inr [Req \<lparr> r_url = ''/a/x'', r_link_text = ''x'', r_callback = Other False,
                 r_cb_kwargs = [''k'' \<mapsto> ''v''], r_follow = False \<rparr>]"
  by (simp add: example_env_def example_response_def in_scope_def link_ax_def link_by_def
      compile_rules_def compile_rule_def Rule_init_def getbool_def requests_to_follow_def
      make_request_def response_downloaded_def parse_def or_empty_def process_results_def)

text \<open>
  Claim C6. \<open>_compile_rules\<close> has no failing path: it returns a compiled rule for every
  template. A \<open>callback\<close> or \<open>process_links\<close> that is a string naming no attribute of
  the spider compiles to \<open>None\<close>, and the engine then treats the rule as one without
  callback (\<open>parse\<close> passes over it) or without link processor (its requests are built
  from the filtered links as extracted).
\<close>

theorem C6_unresolved_name:
  assumes "i < length ts"
  shows "length (compile_rules attrs ts) = length ts
       \<and> (callback (ts ! i) = Name s \<and> attrs s = None
          \<longrightarrow> callback (compile_rules attrs ts ! i) = PyNone
              \<and> parse_loop env rules resp (compile_rules attrs ts ! i # rest)
                  = parse_loop env rules resp rest)
       \<and> (process_links (ts ! i) = Name s \<and> attrs s = None
          \<longrightarrow> process_links (compile_rules attrs ts ! i) = PyNone
              \<and> requests_to_follow_loop env resp reqs seen (compile_rules attrs ts ! i # rest)
                  = (case extract_urls env (link_extractor (ts ! i)) resp of
                       Inl e \<Rightarrow> Inl e
                     | Inr extracted \<Rightarrow>
                         requests_to_follow_loop env resp
                           (reqs @ map (make_request (compile_rules attrs ts ! i))
                                     (filter (\<lambda>l. l \<notin> seen) extracted))
                           (seen \<union> set (filter (\<lambda>l. l \<notin> seen) extracted)) rest))"
proof (intro conjI impI)
  show "length (compile_rules attrs ts) = length ts"
    by (simp add: compile_rules_def)
next
  assume "callback (ts ! i) = Name s \<and> attrs s = None"
  with assms show c: "callback (compile_rules attrs ts ! i) = PyNone"
    by (simp add: compile_rules_def compile_rule_def)
  show "parse_loop env rules resp (compile_rules attrs ts ! i # rest)
          = parse_loop env rules resp rest"
    by (rule parse_loop_no_callback [OF c])
next
  assume "process_links (ts ! i) = Name s \<and> attrs s = None"
  with assms show p: "process_links (compile_rules attrs ts ! i) = PyNone"
    by (simp add: compile_rules_def compile_rule_def)
  have le: "link_extractor (compile_rules attrs ts ! i) = link_extractor (ts ! i)"
    using assms by (simp add: compile_rules_def link_extractor_compile_rule)
  show "requests_to_follow_loop env resp reqs seen (compile_rules attrs ts ! i # rest)
          = (case extract_urls env (link_extractor (ts ! i)) resp of
               Inl e \<Rightarrow> Inl e
             | Inr extracted \<Rightarrow>
                 requests_to_follow_loop env resp
                   (reqs @ map (make_request (compile_rules attrs ts ! i))
                             (filter (\<lambda>l. l \<notin> seen) extracted))
                   (seen \<union> set (filter (\<lambda>l. l \<notin> seen) extracted)) rest)"
    using loop_no_processor [OF p, of env resp reqs seen rest] by (simp add: le)
qed

theorem C6_unresolved_name_witness:
  "length (compile_rules (Map.empty :: string \<rightharpoonup> nat method_ref)
      [Rule_init [''/a''] (Name ''parse_item'') (None :: (string \<rightharpoonup> string) option) None (Name ''fix_links'')]) = 1
   \<and> callback (compile_rules (Map.empty :: string \<rightharpoonup> nat method_ref)
      [Rule_init [''/a''] (Name ''parse_item'') (None :: (string \<rightharpoonup> string) option) None (Name ''fix_links'')] ! 0) = PyNone
   \<and> process_links (compile_rules (Map.empty :: string \<rightharpoonup> nat method_ref)
      [Rule_init [''/a''] (Name ''parse_item'') (None :: (string \<rightharpoonup> string) option) None (Name ''fix_links'')] ! 0) = PyNone"
  using
    C6_unresolved_name [where i = 0 and attrs = "Map.empty :: string \<rightharpoonup> nat method_ref"
      and s = "''parse_item''" and env = "example_env Map.empty" and resp = example_response
      and rules = "[]" and rest = "[]" and reqs = "[]" and seen = "{}"
      and ts = "[Rule_init [''/a''] (Name ''parse_item'') (None :: (string \<rightharpoonup> string) option) None (Name ''fix_links'')]"]
    C6_unresolved_name [where i = 0 and attrs = "Map.empty :: string \<rightharpoonup> nat method_ref"
      and s = "''fix_links''" and env = "example_env Map.empty" and resp = example_response
      and rules = "[]" and rest = "[]" and reqs = "[]" and seen = "{}"
      and ts = "[Rule_init [''/a''] (Name ''parse_item'') (None :: (string \<rightharpoonup> string) option) None (Name ''fix_links'')]"]
  by (simp add: Rule_init_def)

section \<open>Properties of compilation on the heap\<close>

lemma copy_rules_next:
  "copy_rules h ts = Some (cs, h') \<Longrightarrow> next_addr h' = next_addr h + length ts"
proof (induction ts arbitrary: h cs h')
  case Nil
  then show ?case by simp
next
  case (Cons t ts)
  then show ?case
    by (fastforce simp: new_rule_def split: option.splits prod.splits)
qed

lemma copy_rules_addrs:
  "copy_rules h ts = Some (cs, h') \<Longrightarrow> set cs = {next_addr h ..< next_addr h + length ts}"
proof (induction ts arbitrary: h cs h')
  case Nil
  then show ?case by simp
next
  case (Cons t ts)
  from Cons.prems obtain obj cs' where
    obj: "rule_objs h t = Some obj"
    and rec: "copy_rules (snd (new_rule h obj)) ts = Some (cs', h')"
    and cs: "cs = next_addr h # cs'"
    by (auto simp: new_rule_def split: option.splits prod.splits)
  have "set cs' = {Suc (next_addr h) ..< Suc (next_addr h) + length ts}"
    using Cons.IH [OF rec] by (simp add: new_rule_def)
  with cs show ?case by auto
qed

lemma copy_rules_distinct:
  "copy_rules h ts = Some (cs, h') \<Longrightarrow> distinct cs \<and> length cs = length ts"
proof (induction ts arbitrary: h cs h')
  case Nil
  then show ?case by simp
next
  case (Cons t ts)
  from Cons.prems obtain obj cs' where
    rec: "copy_rules (snd (new_rule h obj)) ts = Some (cs', h')"
    and cs: "cs = next_addr h # cs'"
    by (auto simp: new_rule_def split: option.splits prod.splits)
  have "next_addr h \<notin> set cs'"
    using copy_rules_addrs [OF rec] by (simp add: new_rule_def)
  with Cons.IH [OF rec] cs show ?case by simp
qed

lemma copy_rules_dicts:
  "copy_rules h ts = Some (cs, h') \<Longrightarrow> dict_objs h' = dict_objs h"
proof (induction ts arbitrary: h cs h')
  case Nil
  then show ?case by simp
next
  case (Cons t ts)
  then show ?case
    by (fastforce simp: new_rule_def split: option.splits prod.splits)
qed

lemma copy_rules_old:
  "copy_rules h ts = Some (cs, h') \<Longrightarrow> a < next_addr h \<Longrightarrow> rule_objs h' a = rule_objs h a"
proof (induction ts arbitrary: h cs h')
  case Nil
  then show ?case by simp
next
  case (Cons t ts)
  from Cons.prems(1) obtain obj cs' where
    rec: "copy_rules (snd (new_rule h obj)) ts = Some (cs', h')"
    by (auto simp: new_rule_def split: option.splits prod.splits)
  have "rule_objs h' a = rule_objs (snd (new_rule h obj)) a"
    using Cons.IH [OF rec] Cons.prems(2) by (simp add: new_rule_def)
  also have "\<dots> = rule_objs h a"
    using Cons.prems(2) by (simp add: new_rule_def)
  finally show ?case .
qed

lemma copy_rules_dom:
  "copy_rules h ts = Some (cs, h') \<Longrightarrow>
   (rule_objs h' a \<noteq> None) = (rule_objs h a \<noteq> None \<or> a \<in> set cs)"
proof (induction ts arbitrary: h cs h')
  case Nil
  then show ?case by simp
next
  case (Cons t ts)
  from Cons.prems obtain obj cs' where
    rec: "copy_rules (snd (new_rule h obj)) ts = Some (cs', h')"
    and cs: "cs = next_addr h # cs'"
    by (auto simp: new_rule_def split: option.splits prod.splits)
  from Cons.IH [OF rec] cs show ?case by (auto simp: new_rule_def)
qed

lemma copy_rules_objs:
  assumes "copy_rules h ts = Some (cs, h')"
    and "\<forall>t\<in>set ts. t < next_addr h"
  shows "map (rule_objs h') cs = map (rule_objs h) ts"
  using assms
proof (induction ts arbitrary: h cs h')
  case Nil
  then show ?case by simp
next
  case (Cons t ts)
  from Cons.prems(1) obtain obj cs' where
    obj: "rule_objs h t = Some obj"
    and rec: "copy_rules (snd (new_rule h obj)) ts = Some (cs', h')"
    and cs: "cs = next_addr h # cs'"
    by (auto simp: new_rule_def split: option.splits prod.splits)
  have lt: "\<forall>u\<in>set ts. u < next_addr (snd (new_rule h obj))"
    using Cons.prems(2) by (simp add: new_rule_def less_Suc_eq)
  have "map (rule_objs h') cs' = map (rule_objs (snd (new_rule h obj))) ts"
    by (rule Cons.IH [OF rec lt])
  also have "\<dots> = map (rule_objs h) ts"
    using Cons.prems(2) by (auto simp: new_rule_def)
  finally have tl: "map (rule_objs h') cs' = map (rule_objs h) ts" .
  have "rule_objs h' (next_addr h) = rule_objs (snd (new_rule h obj)) (next_addr h)"
    by (rule copy_rules_old [OF rec]) (simp add: new_rule_def)
  then have "rule_objs h' (next_addr h) = rule_objs h t"
    using obj by (simp add: new_rule_def)
  with tl cs show ?case by simp
qed

lemma copy_rules_total:
  "\<forall>t\<in>set ts. rule_objs h t \<noteq> None \<Longrightarrow> \<exists>cs h'. copy_rules h ts = Some (cs, h')"
proof (induction ts arbitrary: h)
  case Nil
  then show ?case by simp
next
  case (Cons t ts)
  from Cons.prems obtain obj where obj: "rule_objs h t = Some obj" by auto
  have "\<forall>u\<in>set ts. rule_objs (snd (new_rule h obj)) u \<noteq> None"
    using Cons.prems by (simp add: new_rule_def)
  from Cons.IH [OF this] obtain cs h' where
    "copy_rules (snd (new_rule h obj)) ts = Some (cs, h')" by blast
  with obj show ?case by (simp add: new_rule_def)
qed

lemma resolve_rules_next:
  "resolve_rules attrs h cs = Some h' \<Longrightarrow> next_addr h' = next_addr h"
proof (induction cs arbitrary: h)
  case Nil
  then show ?case by simp
next
  case (Cons c cs)
  then show ?case by (fastforce split: option.splits)
qed

lemma resolve_rules_dicts:
  "resolve_rules attrs h cs = Some h' \<Longrightarrow> dict_objs h' = dict_objs h"
proof (induction cs arbitrary: h)
  case Nil
  then show ?case by simp
next
  case (Cons c cs)
  then show ?case by (fastforce split: option.splits)
qed

lemma resolve_rules_other:
  "resolve_rules attrs h cs = Some h' \<Longrightarrow> a \<notin> set cs \<Longrightarrow> rule_objs h' a = rule_objs h a"
proof (induction cs arbitrary: h)
  case Nil
  then show ?case by simp
next
  case (Cons c cs)
  then show ?case by (fastforce split: option.splits)
qed

lemma resolve_rules_dom:
  "resolve_rules attrs h cs = Some h' \<Longrightarrow> (rule_objs h' a \<noteq> None) = (rule_objs h a \<noteq> None)"
proof (induction cs arbitrary: h)
  case Nil
  then show ?case by simp
next
  case (Cons c cs)
  from Cons.prems obtain obj where
    obj: "rule_objs h c = Some obj"
    and rec: "resolve_rules attrs (h\<lparr> rule_objs := (rule_objs h)(c \<mapsto> compile_rule attrs obj) \<rparr>) cs
                = Some h'"
    by (auto split: option.splits)
  from Cons.IH [OF rec] obj show ?case by auto
qed

lemma resolve_rules_objs:
  assumes "resolve_rules attrs h cs = Some h'"
    and "distinct cs"
  shows "map (rule_objs h') cs = map (\<lambda>c. map_option (compile_rule attrs) (rule_objs h c)) cs"
  using assms
proof (induction cs arbitrary: h)
  case Nil
  then show ?case by simp
next
  case (Cons c cs)
  let ?h1 = "h\<lparr> rule_objs := (rule_objs h)(c \<mapsto> compile_rule attrs (the (rule_objs h c))) \<rparr>"
  from Cons.prems(1) obtain obj where
    obj: "rule_objs h c = Some obj"
    and rec: "resolve_rules attrs ?h1 cs = Some h'"
    by (auto split: option.splits)
  from Cons.prems(2) have notin: "c \<notin> set cs" and dist: "distinct cs" by simp_all
  have "map (rule_objs h') cs = map (\<lambda>c. map_option (compile_rule attrs) (rule_objs ?h1 c)) cs"
    by (rule Cons.IH [OF rec dist])
  also have "\<dots> = map (\<lambda>c. map_option (compile_rule attrs) (rule_objs h c)) cs"
    using notin by (auto)
  finally have tl: "map (rule_objs h') cs
      = map (\<lambda>c. map_option (compile_rule attrs) (rule_objs h c)) cs" .
  have "rule_objs h' c = rule_objs ?h1 c"
    by (rule resolve_rules_other [OF rec notin])
  with obj tl show ?case by simp
qed

lemma resolve_rules_total:
  "\<forall>c\<in>set cs. rule_objs h c \<noteq> None \<Longrightarrow> \<exists>h'. resolve_rules attrs h cs = Some h'"
proof (induction cs arbitrary: h)
  case Nil
  then show ?case by simp
next
  case (Cons c cs)
  from Cons.prems obtain obj where obj: "rule_objs h c = Some obj" by auto
  have "\<forall>u\<in>set cs.
      rule_objs (h\<lparr> rule_objs := (rule_objs h)(c \<mapsto> compile_rule attrs obj) \<rparr>) u \<noteq> None"
    using Cons.prems by simp
  from Cons.IH [OF this] obj show ?case by simp
qed

lemma compile_rules_obj_effect:
  assumes "compile_rules_obj attrs h ts = Some (cs, h')"
  shows "next_addr h' = next_addr h + length ts"
    and "set cs = {next_addr h ..< next_addr h + length ts}"
    and "dict_objs h' = dict_objs h"
    and "a < next_addr h \<Longrightarrow> rule_objs h' a = rule_objs h a"
    and "heap_ok h \<Longrightarrow> heap_ok h'"
proof -
  from assms obtain h1 where
    cp: "copy_rules h ts = Some (cs, h1)" and rs: "resolve_rules attrs h1 cs = Some h'"
    by (auto simp: compile_rules_obj_def split: option.splits)
  show n: "next_addr h' = next_addr h + length ts"
    using copy_rules_next [OF cp] resolve_rules_next [OF rs] by simp
  show s: "set cs = {next_addr h ..< next_addr h + length ts}"
    by (rule copy_rules_addrs [OF cp])
  show "dict_objs h' = dict_objs h"
    using copy_rules_dicts [OF cp] resolve_rules_dicts [OF rs] by simp
  show "rule_objs h' a = rule_objs h a" if "a < next_addr h"
  proof -
    from that s have "a \<notin> set cs" by simp
    then show ?thesis
      using resolve_rules_other [OF rs] copy_rules_old [OF cp that] by simp
  qed
  show "heap_ok h'" if ok: "heap_ok h"
    unfolding heap_ok_def
  proof (intro allI impI)
    fix b assume "rule_objs h' b \<noteq> None"
    then have "rule_objs h b \<noteq> None \<or> b \<in> set cs"
      using resolve_rules_dom [OF rs, of b] copy_rules_dom [OF cp, of b] by simp
    with ok s n show "b < next_addr h'" by (auto simp: heap_ok_def)
  qed
qed

text \<open>
  Compilation on the heap cannot fail when the class attribute \<open>rules\<close> holds rule
  objects, and it computes what \<open>compile_rules\<close> computes on rule values: read through
  their addresses, the rules of \<open>self._rules\<close> are the compiled templates.
\<close>

lemma compile_rules_obj_total:
  assumes "\<forall>t\<in>set ts. rule_objs h t \<noteq> None"
  shows "\<exists>cs h'. compile_rules_obj attrs h ts = Some (cs, h')"
proof -
  from copy_rules_total [OF assms] obtain cs h1 where
    cp: "copy_rules h ts = Some (cs, h1)" by blast
  have "\<forall>c\<in>set cs. rule_objs h1 c \<noteq> None"
    using copy_rules_dom [OF cp] by simp
  from resolve_rules_total [OF this] obtain h2 where
    "resolve_rules attrs h1 cs = Some h2" by blast
  with cp show ?thesis by (simp add: compile_rules_obj_def)
qed

lemma rule_value_cong:
  "rule_objs h' a = rule_objs h a \<Longrightarrow> dict_objs h' = dict_objs h
    \<Longrightarrow> rule_value h' a = rule_value h a"
  by (simp add: rule_value_def split: option.splits)

lemma rule_value_compile_rule:
  "rule_objs h' c = map_option (compile_rule attrs) (rule_objs h t) \<Longrightarrow> dict_objs h' = dict_objs h
    \<Longrightarrow> rule_value h' c = map_option (compile_rule attrs) (rule_value h t)"
  by (cases "rule_objs h t") (auto simp: rule_value_def compile_rule_def split: option.splits)

lemma compile_rules_obj_refines:
  assumes "compile_rules_obj attrs h ts = Some (cs, h')"
    and "heap_ok h"
    and "\<forall>t\<in>set ts. rule_objs h t \<noteq> None"
  shows "map (rule_value h') cs = map (\<lambda>t. map_option (compile_rule attrs) (rule_value h t)) ts"
proof -
  from assms(1) obtain h1 where
    cp: "copy_rules h ts = Some (cs, h1)" and rs: "resolve_rules attrs h1 cs = Some h'"
    by (auto simp: compile_rules_obj_def split: option.splits)
  have lt: "\<forall>t\<in>set ts. t < next_addr h"
    using assms(2,3) by (auto simp: heap_ok_def)
  have "distinct cs"
    using copy_rules_distinct [OF cp] by simp
  then have "map (rule_objs h') cs
      = map (\<lambda>c. map_option (compile_rule attrs) (rule_objs h1 c)) cs"
    by (rule resolve_rules_objs [OF rs])
  also have "\<dots> = map (map_option (compile_rule attrs)) (map (rule_objs h1) cs)"
    by simp
  also have "\<dots> = map (map_option (compile_rule attrs)) (map (rule_objs h) ts)"
    using copy_rules_objs [OF cp lt] by simp
  finally have objs: "map (rule_objs h') cs
      = map (\<lambda>t. map_option (compile_rule attrs) (rule_objs h t)) ts"
    by simp
  have len: "length cs = length ts"
    using copy_rules_distinct [OF cp] by simp
  have dicts: "dict_objs h' = dict_objs h"
    by (rule compile_rules_obj_effect(3) [OF assms(1)])
  show ?thesis
  proof (rule nth_equalityI)
    show "length (map (rule_value h') cs)
        = length (map (\<lambda>t. map_option (compile_rule attrs) (rule_value h t)) ts)"
      using len by simp
  next
    fix i assume "i < length (map (rule_value h') cs)"
    then have i: "i < length cs" by simp
    with len have i': "i < length ts" by simp
    have "map (rule_objs h') cs ! i
        = map (\<lambda>t. map_option (compile_rule attrs) (rule_objs h t)) ts ! i"
      using objs by simp
    then have "rule_objs h' (cs ! i) = map_option (compile_rule attrs) (rule_objs h (ts ! i))"
      using i i' by simp
    then have "rule_value h' (cs ! i) = map_option (compile_rule attrs) (rule_value h (ts ! i))"
      using dicts by (rule rule_value_compile_rule)
    then show "map (rule_value h') cs ! i
        = map (\<lambda>t. map_option (compile_rule attrs) (rule_value h t)) ts ! i"
      using i i' by simp
  qed
qed

lemma mutate_assignment:
  assumes "is_assignment m" and "mutate h c m = Some h'"
  shows "dict_objs h' = dict_objs h" and "a \<noteq> c \<Longrightarrow> rule_objs h' a = rule_objs h a"
proof -
  from assms(2) obtain obj where obj: "rule_objs h c = Some obj"
    by (auto split: option.splits)
  from assms obj show "dict_objs h' = dict_objs h"
    by (cases m) auto
  from assms obj show "rule_objs h' a = rule_objs h a" if "a \<noteq> c"
    using that by (cases m) auto
qed

lemma compile_rules_obj_nth:
  assumes "compile_rules_obj attrs h ts = Some (cs, h')"
    and "heap_ok h"
    and "\<forall>t\<in>set ts. rule_objs h t \<noteq> None"
    and "i < length ts"
  shows "length cs = length ts"
    and "rule_objs h' (cs ! i) = map_option (compile_rule attrs) (rule_objs h (ts ! i))"
proof -
  from assms(1) obtain h1 where
    cp: "copy_rules h ts = Some (cs, h1)" and rs: "resolve_rules attrs h1 cs = Some h'"
    by (auto simp: compile_rules_obj_def split: option.splits)
  have lt: "\<forall>t\<in>set ts. t < next_addr h"
    using assms(2,3) by (auto simp: heap_ok_def)
  show len: "length cs = length ts"
    using copy_rules_distinct [OF cp] by simp
  have "distinct cs"
    using copy_rules_distinct [OF cp] by simp
  then have "map (rule_objs h') cs
      = map (\<lambda>c. map_option (compile_rule attrs) (rule_objs h1 c)) cs"
    by (rule resolve_rules_objs [OF rs])
  also have "\<dots> = map (map_option (compile_rule attrs)) (map (rule_objs h1) cs)"
    by simp
  also have "\<dots> = map (map_option (compile_rule attrs)) (map (rule_objs h) ts)"
    using copy_rules_objs [OF cp lt] by simp
  finally have "map (rule_objs h') cs ! i
      = map (map_option (compile_rule attrs)) (map (rule_objs h) ts) ! i"
    by simp
  then show "rule_objs h' (cs ! i) = map_option (compile_rule attrs) (rule_objs h (ts ! i))"
    using assms(4) len by simp
qed

lemma cb_kwargs_compile_rule: "cb_kwargs (compile_rule attrs r) = cb_kwargs r"
  by (simp add: compile_rule_def)

lemma mutate_setitem:
  assumes "mutate h c (CbKwargsSetItem k v) = Some h'"
  shows "\<exists>obj d. rule_objs h c = Some obj \<and> dict_objs h (cb_kwargs obj) = Some d
           \<and> h' = h\<lparr> dict_objs := (dict_objs h)(cb_kwargs obj \<mapsto> d(k \<mapsto> v)) \<rparr>"
  using assms by (auto split: option.splits)

lemma rule_value_shared_dict:
  assumes "rule_objs h a = Some obj"
    and "dict_objs h (cb_kwargs obj) = Some d"
  shows "map_option cb_kwargs (rule_value h a) = Some d"
    and "map_option cb_kwargs
           (rule_value (h\<lparr> dict_objs := (dict_objs h)(cb_kwargs obj \<mapsto> d') \<rparr>) a) = Some d'"
  using assms by (simp_all add: rule_value_def)

text \<open>
  Claim C7, amended. \<open>_compile_rules\<close> makes a separate, shallow copy of each template.
  After two instances have compiled the same templates: every template reads as before
  compilation; assigning any attribute of a compiled rule of one instance changes
  neither a template nor a compiled rule of the other instance; the \<open>cb_kwargs\<close> of the
  \<open>i\<close>-th compiled rule of either instance is the same dictionary object as the
  \<open>cb_kwargs\<close> of the \<open>i\<close>-th template; and setting a key of that dictionary in place,
  through the template or through either compiled rule, shows in all three.
\<close>

theorem C7_copies_are_separate_objects:
  assumes "heap_ok h0"
    and "\<forall>t\<in>set ts. rule_objs h0 t \<noteq> None"
    and "compile_rules_obj attrs1 h0 ts = Some (cs1, h1)"
    and "compile_rules_obj attrs2 h1 ts = Some (cs2, h2)"
  shows "(\<forall>t\<in>set ts. rule_value h2 t = rule_value h0 t)
       \<and> (c \<in> set cs1 \<union> set cs2 \<and> is_assignment m \<and> mutate h2 c m = Some h3 \<longrightarrow>
            (\<forall>t\<in>set ts. rule_value h3 t = rule_value h2 t)
          \<and> (c \<in> set cs1 \<longrightarrow> (\<forall>a\<in>set cs2. rule_value h3 a = rule_value h2 a))
          \<and> (c \<in> set cs2 \<longrightarrow> (\<forall>a\<in>set cs1. rule_value h3 a = rule_value h2 a)))
       \<and> (i < length ts \<longrightarrow>
            rule_objs h2 (ts ! i) \<noteq> None
          \<and> map_option cb_kwargs (rule_objs h2 (cs1 ! i))
              = map_option cb_kwargs (rule_objs h2 (ts ! i))
          \<and> map_option cb_kwargs (rule_objs h2 (cs2 ! i))
              = map_option cb_kwargs (rule_objs h2 (ts ! i)))
       \<and> (i < length ts \<and> c' \<in> {ts ! i, cs1 ! i, cs2 ! i}
            \<and> mutate h2 c' (CbKwargsSetItem k v) = Some h4 \<longrightarrow>
            (\<forall>a\<in>{ts ! i, cs1 ! i, cs2 ! i}.
               rule_value h2 a \<noteq> None
             \<and> map_option cb_kwargs (rule_value h4 a)
                 = map_option (\<lambda>d. d(k \<mapsto> v)) (map_option cb_kwargs (rule_value h2 a))))"
proof -
  note e1 = compile_rules_obj_effect [OF assms(3)]
  note e2 = compile_rules_obj_effect [OF assms(4)]
  have lt: "t < next_addr h0" if "t \<in> set ts" for t
    using assms(1,2) that by (auto simp: heap_ok_def)
  have objs_t: "rule_objs h2 t = rule_objs h0 t" if "t \<in> set ts" for t
  proof -
    have t0: "t < next_addr h0" by (rule lt [OF that])
    then have t1: "t < next_addr h1" using e1(1) by simp
    show ?thesis using e2(4) [OF t1] e1(4) [OF t0] by simp
  qed
  have dicts: "dict_objs h2 = dict_objs h0"
    using e1(3) e2(3) by simp
  have tmpl: "rule_value h2 t = rule_value h0 t" if "t \<in> set ts" for t
    using objs_t [OF that] dicts by (rule rule_value_cong)
  have disj: "a \<noteq> b" if "a \<in> set cs1" and "b \<in> set cs2" for a b
  proof -
    from that(1) have "a < next_addr h1" using e1(1,2) by simp
    moreover from that(2) have "next_addr h1 \<le> b" using e2(2) by simp
    ultimately show ?thesis by simp
  qed
  have part2: "(\<forall>t\<in>set ts. rule_value h3 t = rule_value h2 t)
          \<and> (c \<in> set cs1 \<longrightarrow> (\<forall>a\<in>set cs2. rule_value h3 a = rule_value h2 a))
          \<and> (c \<in> set cs2 \<longrightarrow> (\<forall>a\<in>set cs1. rule_value h3 a = rule_value h2 a))"
    if c: "c \<in> set cs1 \<union> set cs2" and m: "is_assignment m" and mu: "mutate h2 c m = Some h3"
  proof -
    have other: "rule_value h3 a = rule_value h2 a" if "a \<noteq> c" for a
    proof (rule rule_value_cong)
      show "rule_objs h3 a = rule_objs h2 a"
        by (rule mutate_assignment(2) [OF m mu that])
      show "dict_objs h3 = dict_objs h2"
        by (rule mutate_assignment(1) [OF m mu])
    qed
    have c_new: "next_addr h0 \<le> c"
    proof (cases "c \<in> set cs1")
      case True
      then show ?thesis using e1(2) by simp
    next
      case False
      with c have "c \<in> set cs2" by simp
      then show ?thesis using e2(2) e1(1) by simp
    qed
    have a: "\<forall>t\<in>set ts. rule_value h3 t = rule_value h2 t"
    proof
      fix t assume "t \<in> set ts"
      then have "t \<noteq> c" using lt [of t] c_new by simp
      then show "rule_value h3 t = rule_value h2 t" by (rule other)
    qed
    have b: "c \<in> set cs1 \<longrightarrow> (\<forall>a\<in>set cs2. rule_value h3 a = rule_value h2 a)"
    proof (intro impI ballI)
      fix a assume "c \<in> set cs1" and "a \<in> set cs2"
      then have "a \<noteq> c" using disj [of c a] by simp
      then show "rule_value h3 a = rule_value h2 a" by (rule other)
    qed
    have d: "c \<in> set cs2 \<longrightarrow> (\<forall>a\<in>set cs1. rule_value h3 a = rule_value h2 a)"
    proof (intro impI ballI)
      fix a assume "c \<in> set cs2" and "a \<in> set cs1"
      then have "a \<noteq> c" using disj [of a c] by simp
      then show "rule_value h3 a = rule_value h2 a" by (rule other)
    qed
    from a b d show ?thesis by (intro conjI)
  qed
  have shared: "\<exists>obj0 obj1 obj2.
        rule_objs h2 (ts ! i) = Some obj0 \<and> rule_objs h2 (cs1 ! i) = Some obj1
      \<and> rule_objs h2 (cs2 ! i) = Some obj2
      \<and> cb_kwargs obj1 = cb_kwargs obj0 \<and> cb_kwargs obj2 = cb_kwargs obj0"
    if i: "i < length ts"
  proof -
    have mem: "ts ! i \<in> set ts" using i by simp
    with assms(2) obtain obj0 where o0: "rule_objs h0 (ts ! i) = Some obj0" by auto
    have o0': "rule_objs h2 (ts ! i) = Some obj0"
      using objs_t [OF mem] o0 by simp
    have o01: "rule_objs h1 (ts ! i) = Some obj0"
      using e1(4) [OF lt [OF mem]] o0 by simp
    have len1: "length cs1 = length ts"
      by (rule compile_rules_obj_nth(1) [OF assms(3) assms(1) assms(2) i])
    have c1: "rule_objs h1 (cs1 ! i) = Some (compile_rule attrs1 obj0)"
      using compile_rules_obj_nth(2) [OF assms(3) assms(1) assms(2) i] o0 by simp
    have "cs1 ! i \<in> set cs1" using len1 i by simp
    then have "cs1 ! i < next_addr h1" using e1(1,2) by simp
    then have c1': "rule_objs h2 (cs1 ! i) = Some (compile_rule attrs1 obj0)"
      using e2(4) c1 by simp
    have ok1: "heap_ok h1" by (rule e1(5) [OF assms(1)])
    have pres1: "\<forall>t\<in>set ts. rule_objs h1 t \<noteq> None"
      using e1(4) lt assms(2) by simp
    have c2: "rule_objs h2 (cs2 ! i) = Some (compile_rule attrs2 obj0)"
      using compile_rules_obj_nth(2) [OF assms(4) ok1 pres1 i] o01 by simp
    from o0' c1' c2 show ?thesis
      by (simp add: cb_kwargs_compile_rule)
  qed
  have part3: "rule_objs h2 (ts ! i) \<noteq> None
          \<and> map_option cb_kwargs (rule_objs h2 (cs1 ! i))
              = map_option cb_kwargs (rule_objs h2 (ts ! i))
          \<and> map_option cb_kwargs (rule_objs h2 (cs2 ! i))
              = map_option cb_kwargs (rule_objs h2 (ts ! i))"
    if i: "i < length ts"
    using shared [OF i] by auto
  have part4: "\<forall>a\<in>{ts ! i, cs1 ! i, cs2 ! i}.
               rule_value h2 a \<noteq> None
             \<and> map_option cb_kwargs (rule_value h4 a)
                 = map_option (\<lambda>d. d(k \<mapsto> v)) (map_option cb_kwargs (rule_value h2 a))"
    if i: "i < length ts" and c': "c' \<in> {ts ! i, cs1 ! i, cs2 ! i}"
      and mu: "mutate h2 c' (CbKwargsSetItem k v) = Some h4"
  proof -
    from shared [OF i] obtain obj0 obj1 obj2 where
      o: "rule_objs h2 (ts ! i) = Some obj0" "rule_objs h2 (cs1 ! i) = Some obj1"
         "rule_objs h2 (cs2 ! i) = Some obj2"
         "cb_kwargs obj1 = cb_kwargs obj0" "cb_kwargs obj2 = cb_kwargs obj0"
      by blast
    from mutate_setitem [OF mu] obtain obj d where
      m: "rule_objs h2 c' = Some obj" "dict_objs h2 (cb_kwargs obj) = Some d"
         "h4 = h2\<lparr> dict_objs := (dict_objs h2)(cb_kwargs obj \<mapsto> d(k \<mapsto> v)) \<rparr>"
      by blast
    have same: "cb_kwargs obj = cb_kwargs obj0"
      using c' o m(1) by auto
    have each: "rule_value h2 a \<noteq> None
             \<and> map_option cb_kwargs (rule_value h4 a)
                 = map_option (\<lambda>d. d(k \<mapsto> v)) (map_option cb_kwargs (rule_value h2 a))"
      if oa: "rule_objs h2 a = Some obja" and ka: "cb_kwargs obja = cb_kwargs obj0" for a obja
    proof -
      have da: "dict_objs h2 (cb_kwargs obja) = Some d"
        using m(2) same ka by simp
      have h4: "h4 = h2\<lparr> dict_objs := (dict_objs h2)(cb_kwargs obja \<mapsto> d(k \<mapsto> v)) \<rparr>"
        using m(3) same ka by simp
      have before: "map_option cb_kwargs (rule_value h2 a) = Some d"
        by (rule rule_value_shared_dict(1) [OF oa da])
      have after: "map_option cb_kwargs (rule_value h4 a) = Some (d(k \<mapsto> v))"
        unfolding h4 by (rule rule_value_shared_dict(2) [OF oa da])
      from before after show ?thesis by auto
    qed
    show ?thesis
      using each [OF o(1)] each [OF o(2) o(4)] each [OF o(3) o(5)] by simp
  qed
  from tmpl part2 part3 part4 show ?thesis by blast
qed

lemma heap_declared_built:
  "Rule_init_obj empty_heap [''/a''] (Name ''parse_item'') None None PyNone
     = Some (1, heap_declared)"
  by (simp add: Rule_init_obj_def empty_heap_def new_dict_def new_rule_def heap_declared_def
      template_obj_def)

lemma heap_one_spider_built:
  "compile_rules_obj [''parse_item'' \<mapsto> Callable 0] heap_declared [1] = Some ([2], heap_one_spider)"
  by (simp add: compile_rules_obj_def new_rule_def heap_declared_def heap_one_spider_def
      template_obj_def compiled_obj_def compile_rule_def)

lemma heap_two_spiders_built:
  "compile_rules_obj [''parse_item'' \<mapsto> Callable 0] heap_one_spider [1] = Some ([3], heap_two_spiders)"
  by (simp add: compile_rules_obj_def new_rule_def heap_two_spiders_def heap_one_spider_def
      template_obj_def compiled_obj_def compile_rule_def)

theorem C7_copies_are_separate_objects_witness:
  "rule_value heap_two_spiders 1 = rule_value heap_declared 1
   \<and> rule_value
        (heap_two_spiders\<lparr> rule_objs :=
           (rule_objs heap_two_spiders)(2 \<mapsto> compiled_obj\<lparr> follow := True \<rparr>) \<rparr>) 1
     = rule_value heap_two_spiders 1
   \<and> rule_value
        (heap_two_spiders\<lparr> rule_objs :=
           (rule_objs heap_two_spiders)(2 \<mapsto> compiled_obj\<lparr> follow := True \<rparr>) \<rparr>) 3
     = rule_value heap_two_spiders 3
   \<and> map_option cb_kwargs (rule_objs heap_two_spiders 2)
     = map_option cb_kwargs (rule_objs heap_two_spiders 1)
   \<and> map_option cb_kwargs (rule_objs heap_two_spiders 3)
     = map_option cb_kwargs (rule_objs heap_two_spiders 1)
   \<and> map_option cb_kwargs
        (rule_value (heap_two_spiders\<lparr> dict_objs := [0 \<mapsto> [''page'' \<mapsto> ''1'']] \<rparr>) 1)
     = map_option (\<lambda>d. d(''page'' \<mapsto> ''1''))
         (map_option cb_kwargs (rule_value heap_two_spiders 1))"
proof -
  let ?h3 = "heap_two_spiders\<lparr> rule_objs :=
           (rule_objs heap_two_spiders)(2 \<mapsto> compiled_obj\<lparr> follow := True \<rparr>) \<rparr>"
  let ?h4 = "heap_two_spiders\<lparr> dict_objs := [0 \<mapsto> [''page'' \<mapsto> ''1'']] \<rparr>"
  have ok: "heap_ok heap_declared"
    by (simp add: heap_ok_def heap_declared_def)
  have pres: "\<forall>t\<in>set [1]. rule_objs heap_declared t \<noteq> None"
    by (simp add: heap_declared_def)
  have m1: "mutate heap_two_spiders 2 (SetFollow True) = Some ?h3"
    by (simp add: heap_two_spiders_def)
  have m2: "mutate heap_two_spiders 2 (CbKwargsSetItem ''page'' ''1'') = Some ?h4"
    by (simp add: heap_two_spiders_def compiled_obj_def)
  note t = C7_copies_are_separate_objects [OF ok pres heap_one_spider_built heap_two_spiders_built,
      where c = 2 and m = "SetFollow True" and ?h3.0 = ?h3 and i = 0 and c' = 2
      and k = "''page''" and v = "''1''" and ?h4.0 = ?h4]
  from t m1 m2 show ?thesis by simp
qed

text \<open>
  The claim as stated, for every mutation, fails for a change of the \<open>cb_kwargs\<close>
  dictionary in place: \<open>copy.copy\<close> copies the rule object and not its dictionary, so
  the template and the compiled rules of both spiders hold the same dictionary object.
  Setting a key through the first spider's rule shows in the template and in the second
  spider's rule.
\<close>

theorem C7_shared_cb_kwargs_counterexample:
  "Rule_init_obj empty_heap [''/a''] (Name ''parse_item'') None None PyNone
     = Some (1, heap_declared)
   \<and> compile_rules_obj [''parse_item'' \<mapsto> Callable 0] heap_declared [1] = Some ([2], heap_one_spider)
   \<and> compile_rules_obj [''parse_item'' \<mapsto> Callable 0] heap_one_spider [1] = Some ([3], heap_two_spiders)
   \<and> mutate heap_two_spiders 2 (CbKwargsSetItem ''page'' ''1'')
       = Some (heap_two_spiders\<lparr> dict_objs := [0 \<mapsto> [''page'' \<mapsto> ''1'']] \<rparr>)
   \<and> map_option cb_kwargs (rule_value heap_two_spiders 1) = Some Map.empty
   \<and> map_option cb_kwargs
         (rule_value (heap_two_spiders\<lparr> dict_objs := [0 \<mapsto> [''page'' \<mapsto> ''1'']] \<rparr>) 1)
       = Some [''page'' \<mapsto> ''1'']
   \<and> map_option cb_kwargs (rule_value heap_two_spiders 3) = Some Map.empty
   \<and> map_option cb_kwargs
         (rule_value (heap_two_spiders\<lparr> dict_objs := [0 \<mapsto> [''page'' \<mapsto> ''1'']] \<rparr>) 3)
       = Some [''page'' \<mapsto> ''1'']
   \<and> rule_value (heap_two_spiders\<lparr> dict_objs := [0 \<mapsto> [''page'' \<mapsto> ''1'']] \<rparr>) 1
       \<noteq> rule_value heap_two_spiders 1
   \<and> rule_value (heap_two_spiders\<lparr> dict_objs := [0 \<mapsto> [''page'' \<mapsto> ''1'']] \<rparr>) 3
       \<noteq> rule_value heap_two_spiders 3"
proof (intro conjI)
  show "Rule_init_obj empty_heap [''/a''] (Name ''parse_item'') None None PyNone
     = Some (1, heap_declared)"
    by (rule heap_declared_built)
  show "compile_rules_obj [''parse_item'' \<mapsto> Callable 0] heap_declared [1] = Some ([2], heap_one_spider)"
    by (rule heap_one_spider_built)
  show "compile_rules_obj [''parse_item'' \<mapsto> Callable 0] heap_one_spider [1] = Some ([3], heap_two_spiders)"
    by (rule heap_two_spiders_built)
qed (simp_all add: heap_two_spiders_def rule_value_def template_obj_def compiled_obj_def)

end
